theory Spec2Isabelle
  imports Main "HOL-Library.Word" "HOL-Library.Monad_Syntax"
begin

unbundle bit_operations_syntax

section \<open>The alarm data model (alarm\_manager.h)\<close>

text \<open>
  The two enums and the struct of \<^verbatim>\<open>alarm_manager.h\<close>. The C++ \<^verbatim>\<open>int\<close> and
  \<^verbatim>\<open>int64_t\<close> fields are modelled as unbounded integers: on every state the manager can
  reach the values stay far below the machine bounds (\<open>hour\<close> in 0..23, \<open>minute\<close> in
  0..59, \<open>snooze_minutes\<close> in 1..60, \<open>max_snooze_count\<close> in 0..10; see
  \<open>reachable_ranges\<close> below), so the arithmetic of the source on them does not wrap;
  the id counter and the seconds since boot are taken to stay in their ranges too. The
  field \<^verbatim>\<open>id\<close> is called \<open>id_field\<close> here. \<^verbatim>\<open>weekdays_mask\<close> is the source's
  \<^verbatim>\<open>uint8_t\<close>.
\<close>

datatype AlarmRepeatMode =
  kAlarmOnce | kAlarmDaily | kAlarmWeekdays | kAlarmWeekends | kAlarmCustom

datatype AlarmStatus =
  kAlarmEnabled | kAlarmDisabled | kAlarmTriggered | kAlarmSnoozed

record AlarmItem =
  id_field :: int
  hour :: int
  minute :: int
  repeat_mode :: AlarmRepeatMode
  weekdays_mask :: "8 word"
  status :: AlarmStatus
  label :: string
  music_name :: string
  snooze_count :: int
  max_snooze_count :: int
  snooze_minutes :: int
  last_triggered_time :: int
  next_snooze_time :: int

text \<open>The constructor \<^verbatim>\<open>AlarmItem()\<close> with its member initialisers.\<close>

definition AlarmItem_new :: AlarmItem where
  "AlarmItem_new =
     \<lparr>id_field = 0, hour = 0, minute = 0, repeat_mode = kAlarmOnce, weekdays_mask = 0,
      status = kAlarmEnabled, label = [], music_name = [], snooze_count = 0,
      max_snooze_count = 3, snooze_minutes = 5, last_triggered_time = 0,
      next_snooze_time = 0\<rparr>"

text \<open>
  A callback invocation, with the snapshot of the alarm it is handed
  (\<^verbatim>\<open>std::function<void(const AlarmItem&)>\<close>).
\<close>

datatype callback =
  OnAlarmTriggered AlarmItem | OnAlarmSnoozed AlarmItem | OnAlarmStopped AlarmItem

fun callback_alarm :: "callback \<Rightarrow> AlarmItem" where
  "callback_alarm (OnAlarmTriggered a) = a"
| "callback_alarm (OnAlarmSnoozed a) = a"
| "callback_alarm (OnAlarmStopped a) = a"

text \<open>
  Modelled from the spec: the durable key/value store behind \<^verbatim>\<open>Settings\<close>
  (\<^verbatim>\<open>settings.h\<close> is not among the sources) and the serialized alarm record. The spec
  (section 6) names the keys \<^verbatim>\<open>next_id\<close>, \<^verbatim>\<open>count\<close> and \<^verbatim>\<open>alarm_<index>\<close>, and the ten
  persisted fields of a record. An \<open>alarm_json\<close> is the cJSON object of one record: a key
  may be absent (\<^verbatim>\<open>cJSON_GetObjectItem\<close> returns null). The two enum fields are stored as
  their enumerators; the numbers are the \<^verbatim>\<open>valueint\<close> of the items. A slot \<open>key_alarm s i\<close>
  is \<open>None\<close> when the key \<^verbatim>\<open>alarm_<i>\<close> is absent, holds the empty string, or holds a
  text that \<^verbatim>\<open>cJSON_Parse\<close> rejects: the loader skips all three alike.
\<close>

record alarm_json =
  j_id :: "int option"
  j_hour :: "int option"
  j_minute :: "int option"
  j_repeat :: "AlarmRepeatMode option"
  j_weekdays :: "int option"
  j_status :: "AlarmStatus option"
  j_label :: "string option"
  j_music :: "string option"
  j_snooze_minutes :: "int option"
  j_max_snooze :: "int option"

record Settings =
  key_next_id :: "int option"
  key_count :: "int option"
  key_alarm :: "nat \<Rightarrow> alarm_json option"

definition Settings_empty :: Settings where
  "Settings_empty = \<lparr>key_next_id = None, key_count = None, key_alarm = (\<lambda>_. None)\<rparr>"

definition GetInt :: "int option \<Rightarrow> int \<Rightarrow> int" where
  "GetInt slot default_value = (case slot of None \<Rightarrow> default_value | Some v \<Rightarrow> v)"

text \<open>
  The members of \<^verbatim>\<open>class AlarmManager\<close>. \<open>settings\<close> says whether the pointer
  \<^verbatim>\<open>settings_\<close> holds an object; \<open>nvs\<close> is the durable store that object reads and
  writes, which outlives it. The three callback members are modelled by whether a target
  is registered, and \<open>calls\<close> lists the invocations made so far, oldest first.
  \<open>alarms_mutex\<close> says whether the (non-recursive) \<^verbatim>\<open>std::mutex alarms_mutex_\<close> is held.
\<close>

record AlarmManager =
  alarms :: "AlarmItem list"
  settings :: bool
  initialized :: bool
  next_alarm_id :: int
  default_snooze_minutes :: int
  default_max_snooze_count :: int
  on_alarm_triggered :: bool
  on_alarm_snoozed :: bool
  on_alarm_stopped :: bool
  alarms_mutex :: bool
  nvs :: Settings
  calls :: "callback list"

text \<open>The constructor \<^verbatim>\<open>AlarmManager::AlarmManager()\<close>, on a given durable store.\<close>

definition AlarmManager_new :: "Settings \<Rightarrow> AlarmManager" where
  "AlarmManager_new store =
     \<lparr>alarms = [], settings = False, initialized = False, next_alarm_id = 1,
      default_snooze_minutes = 5, default_max_snooze_count = 3,
      on_alarm_triggered = False, on_alarm_snoozed = False, on_alarm_stopped = False,
      alarms_mutex = False, nvs = store, calls = []\<rparr>"

section \<open>Helpers: the mutex, iterators, callbacks\<close>

text \<open>
  \<^verbatim>\<open>std::lock_guard<std::mutex> lock(alarms_mutex_)\<close> around the rest of a scope.
  \<^verbatim>\<open>std::mutex\<close> is not recursive: a thread that locks a mutex it already holds does
  not come back from the call (the behaviour is undefined; the FreeRTOS mutex behind it
  blocks forever). Not returning is the value \<open>None\<close>. The guard releases the mutex
  when the scope is left.
\<close>

definition lock_guard ::
  "(AlarmManager \<Rightarrow> ('r \<times> AlarmManager) option) \<Rightarrow> AlarmManager \<Rightarrow> ('r \<times> AlarmManager) option"
where
  "lock_guard scope m =
     (if alarms_mutex m then None
      else case scope (m\<lparr>alarms_mutex := True\<rparr>) of
             None \<Rightarrow> None
           | Some (r, m') \<Rightarrow> Some (r, m'\<lparr>alarms_mutex := False\<rparr>))"

text \<open>
  \<^verbatim>\<open>std::find_if(alarms_.begin(), alarms_.end(), [alarm_id](...) { return alarm->id == alarm_id; })\<close>:
  the position of the first alarm with the id, \<open>None\<close> for \<^verbatim>\<open>alarms_.end()\<close>.
\<close>

fun find_if :: "int \<Rightarrow> AlarmItem list \<Rightarrow> nat option" where
  "find_if alarm_id [] = None"
| "find_if alarm_id (a # as) =
     (if id_field a = alarm_id then Some 0 else map_option Suc (find_if alarm_id as))"

text \<open>An assignment through the iterator: \<^verbatim>\<open>(*it)->field = value\<close>.\<close>

definition assign :: "nat \<Rightarrow> (AlarmItem \<Rightarrow> AlarmItem) \<Rightarrow> AlarmManager \<Rightarrow> AlarmManager" where
  "assign it f m = m\<lparr>alarms := (alarms m)[it := f (alarms m ! it)]\<rparr>"

text \<open>\<^verbatim>\<open>if (on_alarm_x_) { on_alarm_x_(alarm); }\<close>\<close>

definition invoke :: "bool \<Rightarrow> callback \<Rightarrow> AlarmManager \<Rightarrow> AlarmManager" where
  "invoke registered c m = (if registered then m\<lparr>calls := calls m @ [c]\<rparr> else m)"

text \<open>The invocations, among \<open>cs\<close>, that were handed an alarm with the id.\<close>

definition calls_for :: "int \<Rightarrow> callback list \<Rightarrow> callback list" where
  "calls_for alarm_id cs = filter (\<lambda>c. id_field (callback_alarm c) = alarm_id) cs"

section \<open>Storage (alarm\_manager.cc, private methods)\<close>

text \<open>The ten \<^verbatim>\<open>cJSON_Add...ToObject\<close> calls of \<^verbatim>\<open>SaveAlarmToStorage\<close>.\<close>

definition to_json :: "AlarmItem \<Rightarrow> alarm_json" where
  "to_json alarm =
     \<lparr>j_id = Some (id_field alarm), j_hour = Some (hour alarm), j_minute = Some (minute alarm),
      j_repeat = Some (repeat_mode alarm), j_weekdays = Some (uint (weekdays_mask alarm)),
      j_status = Some (status alarm), j_label = Some (label alarm),
      j_music = Some (music_name alarm), j_snooze_minutes = Some (snooze_minutes alarm),
      j_max_snooze = Some (max_snooze_count alarm)\<rparr>"

definition SaveAlarmToStorage :: "AlarmItem \<Rightarrow> AlarmManager \<Rightarrow> AlarmManager" where
  "SaveAlarmToStorage alarm m =
     (if \<not> settings m then m
      else case find_if (id_field alarm) (alarms m) of
             Some index \<Rightarrow>
               m\<lparr>nvs := (nvs m)\<lparr>key_alarm := (key_alarm (nvs m))(index \<mapsto> to_json alarm)\<rparr>\<rparr>
           | None \<Rightarrow> m)"

text \<open>
  \<^verbatim>\<open>SaveAlarmsToStorage\<close> takes the mutex itself, writes \<^verbatim>\<open>count\<close> and saves every
  alarm in turn.
\<close>

definition SaveAlarmsToStorage :: "AlarmManager \<Rightarrow> (unit \<times> AlarmManager) option" where
  "SaveAlarmsToStorage m =
     (if \<not> settings m then Some ((), m)
      else lock_guard (\<lambda>m.
        let m = m\<lparr>nvs := (nvs m)\<lparr>key_count := Some (int (length (alarms m)))\<rparr>\<rparr>
        in Some ((), fold SaveAlarmToStorage (alarms m) m)) m)"

definition RemoveAlarmFromStorage :: "int \<Rightarrow> AlarmManager \<Rightarrow> (unit \<times> AlarmManager) option" where
  "RemoveAlarmFromStorage alarm_id m = SaveAlarmsToStorage m"

definition GetNextAlarmId :: "AlarmManager \<Rightarrow> int \<times> AlarmManager" where
  "GetNextAlarmId m = (next_alarm_id m, m\<lparr>next_alarm_id := next_alarm_id m + 1\<rparr>)"

text \<open>
  The body of the loading loop for one parsed record: a fresh \<^verbatim>\<open>AlarmItem\<close>, every key
  that is present assigned, then the runtime state reset.
\<close>

definition from_json :: "alarm_json \<Rightarrow> AlarmItem" where
  "from_json json =
     (let alarm = AlarmItem_new;
          alarm = (case j_id json of Some v \<Rightarrow> alarm\<lparr>id_field := v\<rparr> | None \<Rightarrow> alarm);
          alarm = (case j_hour json of Some v \<Rightarrow> alarm\<lparr>hour := v\<rparr> | None \<Rightarrow> alarm);
          alarm = (case j_minute json of Some v \<Rightarrow> alarm\<lparr>minute := v\<rparr> | None \<Rightarrow> alarm);
          alarm = (case j_repeat json of Some v \<Rightarrow> alarm\<lparr>repeat_mode := v\<rparr> | None \<Rightarrow> alarm);
          alarm = (case j_weekdays json of
                     Some v \<Rightarrow> alarm\<lparr>weekdays_mask := word_of_int v\<rparr> | None \<Rightarrow> alarm);
          alarm = (case j_status json of Some v \<Rightarrow> alarm\<lparr>status := v\<rparr> | None \<Rightarrow> alarm);
          alarm = (case j_label json of Some v \<Rightarrow> alarm\<lparr>label := v\<rparr> | None \<Rightarrow> alarm);
          alarm = (case j_music json of Some v \<Rightarrow> alarm\<lparr>music_name := v\<rparr> | None \<Rightarrow> alarm);
          alarm = (case j_snooze_minutes json of
                     Some v \<Rightarrow> alarm\<lparr>snooze_minutes := v\<rparr> | None \<Rightarrow> alarm);
          alarm = (case j_max_snooze json of
                     Some v \<Rightarrow> alarm\<lparr>max_snooze_count := v\<rparr> | None \<Rightarrow> alarm);
          alarm = alarm\<lparr>snooze_count := 0, last_triggered_time := 0, next_snooze_time := 0\<rparr>
      in if status alarm = kAlarmTriggered \<or> status alarm = kAlarmSnoozed
         then alarm\<lparr>status := kAlarmEnabled\<rparr> else alarm)"

text \<open>
  \<^verbatim>\<open>for (int i = 0; i < alarm_count; i++)\<close>: a slot that is empty or does not parse is
  skipped, every other one appends its alarm.
\<close>

definition load_loop :: "Settings \<Rightarrow> int \<Rightarrow> AlarmItem list" where
  "load_loop store alarm_count =
     concat (map (\<lambda>i. case key_alarm store i of None \<Rightarrow> [] | Some json \<Rightarrow> [from_json json])
                 [0 ..< nat alarm_count])"

definition LoadAlarmsFromStorage :: "AlarmManager \<Rightarrow> (unit \<times> AlarmManager) option" where
  "LoadAlarmsFromStorage m =
     lock_guard (\<lambda>m.
       let m = m\<lparr>alarms := []\<rparr>;
           alarm_count = GetInt (key_count (nvs m)) 0
       in Some ((), m\<lparr>alarms := load_loop (nvs m) alarm_count\<rparr>)) m"

section \<open>Alarm management (alarm\_manager.cc, public methods)\<close>

definition Initialize :: "AlarmManager \<Rightarrow> (unit \<times> AlarmManager) option" where
  "Initialize m =
     (if initialized m then Some ((), m)
      else do {
        let m = m\<lparr>settings := True\<rparr>;
        (_, m) \<leftarrow> LoadAlarmsFromStorage m;
        let m = m\<lparr>next_alarm_id := GetInt (key_next_id (nvs m)) 1\<rparr>;
        Some ((), m\<lparr>initialized := True\<rparr>)
      })"

text \<open>
  \<^verbatim>\<open>AddAlarm\<close> returns the new id, or -1. \<^verbatim>\<open>settings_->SetInt("next_id", ...)\<close>
  dereferences \<^verbatim>\<open>settings_\<close>: on a null pointer the call does not return.
\<close>

definition AddAlarm ::
  "int \<Rightarrow> int \<Rightarrow> AlarmRepeatMode \<Rightarrow> string \<Rightarrow> string \<Rightarrow> AlarmManager
     \<Rightarrow> (int \<times> AlarmManager) option"
where
  "AddAlarm h mi mode lbl music m =
     (if \<not> initialized m then Some (- 1, m)
      else if h < 0 \<or> h > 23 \<or> mi < 0 \<or> mi > 59 then Some (- 1, m)
      else lock_guard (\<lambda>m.
        let (new_id, m) = GetNextAlarmId m;
            alarm = AlarmItem_new
              \<lparr>id_field := new_id, hour := h, minute := mi, repeat_mode := mode,
               label := lbl, music_name := music, status := kAlarmEnabled,
               snooze_minutes := default_snooze_minutes m,
               max_snooze_count := default_max_snooze_count m\<rparr>;
            alarm = (case mode of
                       kAlarmDaily \<Rightarrow> alarm\<lparr>weekdays_mask := 0b1111111\<rparr>
                     | kAlarmWeekdays \<Rightarrow> alarm\<lparr>weekdays_mask := 0b0111110\<rparr>
                     | kAlarmWeekends \<Rightarrow> alarm\<lparr>weekdays_mask := 0b1000001\<rparr>
                     | _ \<Rightarrow> alarm\<lparr>weekdays_mask := 0\<rparr>);
            alarm_id = id_field alarm;
            m = m\<lparr>alarms := alarms m @ [alarm]\<rparr>;
            m = SaveAlarmToStorage (last (alarms m)) m
        in if settings m
           then Some (alarm_id, m\<lparr>nvs := (nvs m)\<lparr>key_next_id := Some (next_alarm_id m)\<rparr>\<rparr>)
           else None) m)"

text \<open>
  \<^verbatim>\<open>RemoveAlarm\<close> calls \<^verbatim>\<open>RemoveAlarmFromStorage\<close>, and through it
  \<^verbatim>\<open>SaveAlarmsToStorage\<close>, inside its own guarded scope.
\<close>

definition RemoveAlarm :: "int \<Rightarrow> AlarmManager \<Rightarrow> (bool \<times> AlarmManager) option" where
  "RemoveAlarm alarm_id m =
     (if \<not> initialized m then Some (False, m)
      else lock_guard (\<lambda>m.
        case find_if alarm_id (alarms m) of
          Some it \<Rightarrow> do {
            let m = m\<lparr>alarms := take it (alarms m) @ drop (Suc it) (alarms m)\<rparr>;
            (_, m) \<leftarrow> RemoveAlarmFromStorage alarm_id m;
            Some (True, m)
          }
        | None \<Rightarrow> Some (False, m)) m)"

definition EnableAlarm :: "int \<Rightarrow> bool \<Rightarrow> AlarmManager \<Rightarrow> (bool \<times> AlarmManager) option" where
  "EnableAlarm alarm_id enabled m =
     (if \<not> initialized m then Some (False, m)
      else lock_guard (\<lambda>m.
        case find_if alarm_id (alarms m) of
          Some it \<Rightarrow>
            let m = assign it (\<lambda>a. a\<lparr>status := (if enabled then kAlarmEnabled else kAlarmDisabled)\<rparr>) m;
                m = SaveAlarmToStorage (alarms m ! it) m
            in Some (True, m)
        | None \<Rightarrow> Some (False, m)) m)"

definition ModifyAlarm ::
  "int \<Rightarrow> int \<Rightarrow> int \<Rightarrow> AlarmRepeatMode \<Rightarrow> string \<Rightarrow> string \<Rightarrow> AlarmManager
     \<Rightarrow> (bool \<times> AlarmManager) option"
where
  "ModifyAlarm alarm_id h mi mode lbl music m =
     (if \<not> initialized m then Some (False, m)
      else if h < 0 \<or> h > 23 \<or> mi < 0 \<or> mi > 59 then Some (False, m)
      else lock_guard (\<lambda>m.
        case find_if alarm_id (alarms m) of
          Some it \<Rightarrow>
            let m = assign it (\<lambda>a. a\<lparr>hour := h\<rparr>) m;
                m = assign it (\<lambda>a. a\<lparr>minute := mi\<rparr>) m;
                m = assign it (\<lambda>a. a\<lparr>repeat_mode := mode\<rparr>) m;
                m = assign it (\<lambda>a. a\<lparr>label := lbl\<rparr>) m;
                m = assign it (\<lambda>a. a\<lparr>music_name := music\<rparr>) m;
                m = (case mode of
                       kAlarmDaily \<Rightarrow> assign it (\<lambda>a. a\<lparr>weekdays_mask := 0b1111111\<rparr>) m
                     | kAlarmWeekdays \<Rightarrow> assign it (\<lambda>a. a\<lparr>weekdays_mask := 0b0111110\<rparr>) m
                     | kAlarmWeekends \<Rightarrow> assign it (\<lambda>a. a\<lparr>weekdays_mask := 0b1000001\<rparr>) m
                     | _ \<Rightarrow> m);
                m = SaveAlarmToStorage (alarms m ! it) m
            in Some (True, m)
        | None \<Rightarrow> Some (False, m)) m)"

section \<open>Snooze and stop\<close>

definition StopAlarm :: "int \<Rightarrow> AlarmManager \<Rightarrow> (bool \<times> AlarmManager) option" where
  "StopAlarm alarm_id m =
     (if \<not> initialized m then Some (False, m)
      else lock_guard (\<lambda>m.
        case find_if alarm_id (alarms m) of
          Some it \<Rightarrow>
            if status (alarms m ! it) = kAlarmTriggered \<or> status (alarms m ! it) = kAlarmSnoozed
            then
              let m = assign it (\<lambda>a. a\<lparr>status :=
                        (if repeat_mode a = kAlarmOnce then kAlarmDisabled else kAlarmEnabled)\<rparr>) m;
                  m = assign it (\<lambda>a. a\<lparr>snooze_count := 0\<rparr>) m;
                  m = assign it (\<lambda>a. a\<lparr>next_snooze_time := 0\<rparr>) m;
                  m = invoke (on_alarm_stopped m) (OnAlarmStopped (alarms m ! it)) m
              in Some (True, m)
            else Some (False, m)
        | None \<Rightarrow> Some (False, m)) m)"

text \<open>
  \<^verbatim>\<open>SnoozeAlarm\<close>; \<open>now\<close> is what \<^verbatim>\<open>esp_timer_get_time() / 1000000\<close> gives, the seconds
  since boot. The branch of the exhausted snooze count calls \<^verbatim>\<open>StopAlarm(alarm_id)\<close>
  inside the guarded scope and then falls through to \<^verbatim>\<open>return false\<close>.
\<close>

definition SnoozeAlarm :: "int \<Rightarrow> int \<Rightarrow> AlarmManager \<Rightarrow> (bool \<times> AlarmManager) option" where
  "SnoozeAlarm now alarm_id m =
     (if \<not> initialized m then Some (False, m)
      else lock_guard (\<lambda>m.
        case find_if alarm_id (alarms m) of
          Some it \<Rightarrow>
            if status (alarms m ! it) = kAlarmTriggered then
              if snooze_count (alarms m ! it) < max_snooze_count (alarms m ! it) then
                let m = assign it (\<lambda>a. a\<lparr>status := kAlarmSnoozed\<rparr>) m;
                    m = assign it (\<lambda>a. a\<lparr>snooze_count := snooze_count a + 1\<rparr>) m;
                    m = assign it (\<lambda>a. a\<lparr>next_snooze_time := now + snooze_minutes a * 60\<rparr>) m;
                    m = invoke (on_alarm_snoozed m) (OnAlarmSnoozed (alarms m ! it)) m
                in Some (True, m)
              else do {
                (_, m) \<leftarrow> StopAlarm alarm_id m;
                Some (False, m)
              }
            else Some (False, m)
        | None \<Rightarrow> Some (False, m)) m)"

text \<open>
  \<^verbatim>\<open>for (auto& alarm : alarms_)\<close> with a body that assigns to its own alarm and may
  invoke callbacks: the alarms are replaced one by one, in order, and the invocations are
  appended in the same order. The body is told the position of its alarm.
\<close>

definition for_each ::
  "(nat \<Rightarrow> AlarmItem \<Rightarrow> AlarmItem \<times> callback list) \<Rightarrow> AlarmManager \<Rightarrow> AlarmManager"
where
  "for_each body m =
     (let rs = map (\<lambda>(k, alarm). body k alarm) (enumerate 0 (alarms m))
      in m\<lparr>alarms := map fst rs, calls := calls m @ concat (map snd rs)\<rparr>)"

definition StopAllActiveAlarms_body :: "bool \<Rightarrow> AlarmItem \<Rightarrow> AlarmItem \<times> callback list" where
  "StopAllActiveAlarms_body registered alarm =
     (if status alarm = kAlarmTriggered \<or> status alarm = kAlarmSnoozed then
        let alarm = alarm\<lparr>status :=
              (if repeat_mode alarm = kAlarmOnce then kAlarmDisabled else kAlarmEnabled)\<rparr>;
            alarm = alarm\<lparr>snooze_count := 0\<rparr>;
            alarm = alarm\<lparr>next_snooze_time := 0\<rparr>
        in (alarm, if registered then [OnAlarmStopped alarm] else [])
      else (alarm, []))"

definition StopAllActiveAlarms :: "AlarmManager \<Rightarrow> (unit \<times> AlarmManager) option" where
  "StopAllActiveAlarms m =
     (if \<not> initialized m then Some ((), m)
      else lock_guard (\<lambda>m.
        Some ((), for_each (\<lambda>k. StopAllActiveAlarms_body (on_alarm_stopped m)) m)) m)"

definition Cleanup :: "AlarmManager \<Rightarrow> (unit \<times> AlarmManager) option" where
  "Cleanup m =
     (if \<not> initialized m then Some ((), m)
      else do {
        (_, m) \<leftarrow> StopAllActiveAlarms m;
        (_, m) \<leftarrow> SaveAlarmsToStorage m;
        (_, m) \<leftarrow> lock_guard (\<lambda>m. Some ((), m\<lparr>alarms := []\<rparr>)) m;
        Some ((), m\<lparr>settings := False, initialized := False\<rparr>)
      })"

section \<open>The periodic check\<close>

text \<open>
  \<open>weekday\<close> is \<^verbatim>\<open>tm_wday\<close>, 0 (Sunday) to 6 (Saturday). The mask is promoted to
  \<^verbatim>\<open>int\<close> before \<^verbatim>\<open>&\<close>.
\<close>

definition IsWeekdayActive :: "AlarmItem \<Rightarrow> nat \<Rightarrow> bool" where
  "IsWeekdayActive alarm weekday =
     (if repeat_mode alarm = kAlarmOnce then True
      else (uint (weekdays_mask alarm) AND push_bit weekday 1) \<noteq> 0)"

text \<open>\<open>weekday\<close> is what \<^verbatim>\<open>GetCurrentWeekday()\<close> returns when it is called.\<close>

definition ShouldTriggerToday :: "nat \<Rightarrow> AlarmItem \<Rightarrow> bool" where
  "ShouldTriggerToday weekday alarm =
     (if repeat_mode alarm = kAlarmOnce then True else IsWeekdayActive alarm weekday)"

text \<open>
  What the clocks give during one call of \<^verbatim>\<open>CheckAlarms\<close>: on entry
  \<^verbatim>\<open>esp_timer_get_time() / 1000000\<close> and \<^verbatim>\<open>GetCurrentTimeInMinutes()\<close>
  (\<^verbatim>\<open>tm_hour * 60 + tm_min\<close>), and for the alarm at position \<open>k\<close> of the loop
  \<^verbatim>\<open>GetCurrentWeekday()\<close> and the second reading of \<^verbatim>\<open>esp_timer_get_time() / 1000000\<close>.
\<close>

record clock =
  current_time_seconds :: int
  current_time_minutes :: int
  current_weekday_at :: "nat \<Rightarrow> nat"
  current_time_in_seconds :: "nat \<Rightarrow> int"

definition CheckAlarms_body :: "clock \<Rightarrow> bool \<Rightarrow> nat \<Rightarrow> AlarmItem \<Rightarrow> AlarmItem \<times> callback list" where
  "CheckAlarms_body clk registered k alarm =
     (if status alarm = kAlarmSnoozed \<and> current_time_seconds clk \<ge> next_snooze_time alarm then
        let alarm = alarm\<lparr>status := kAlarmTriggered\<rparr>;
            alarm = alarm\<lparr>next_snooze_time := 0\<rparr>
        in (alarm, if registered then [OnAlarmTriggered alarm] else [])
      else if status alarm \<noteq> kAlarmEnabled then (alarm, [])
      else if hour alarm * 60 + minute alarm \<noteq> current_time_minutes clk then (alarm, [])
      else if \<not> ShouldTriggerToday (current_weekday_at clk k) alarm then (alarm, [])
      else if last_triggered_time alarm > 0
              \<and> current_time_in_seconds clk k - last_triggered_time alarm < 60 then (alarm, [])
      else
        let alarm = alarm\<lparr>status := kAlarmTriggered\<rparr>;
            alarm = alarm\<lparr>last_triggered_time := current_time_in_seconds clk k\<rparr>;
            alarm = alarm\<lparr>snooze_count := 0\<rparr>
        in (alarm, if registered then [OnAlarmTriggered alarm] else []))"

definition CheckAlarms :: "clock \<Rightarrow> AlarmManager \<Rightarrow> (unit \<times> AlarmManager) option" where
  "CheckAlarms clk m =
     (if \<not> initialized m then Some ((), m)
      else lock_guard (\<lambda>m.
        Some ((), for_each (CheckAlarms_body clk (on_alarm_triggered m)) m)) m)"

section \<open>Callbacks and configuration\<close>

text \<open>The argument says whether the \<^verbatim>\<open>std::function\<close> passed in holds a target.\<close>

definition SetAlarmTriggeredCallback :: "bool \<Rightarrow> AlarmManager \<Rightarrow> AlarmManager" where
  "SetAlarmTriggeredCallback cb m = m\<lparr>on_alarm_triggered := cb\<rparr>"

definition SetAlarmSnoozeCallback :: "bool \<Rightarrow> AlarmManager \<Rightarrow> AlarmManager" where
  "SetAlarmSnoozeCallback cb m = m\<lparr>on_alarm_snoozed := cb\<rparr>"

definition SetAlarmStopCallback :: "bool \<Rightarrow> AlarmManager \<Rightarrow> AlarmManager" where
  "SetAlarmStopCallback cb m = m\<lparr>on_alarm_stopped := cb\<rparr>"

definition SetDefaultSnoozeMinutes :: "int \<Rightarrow> AlarmManager \<Rightarrow> AlarmManager" where
  "SetDefaultSnoozeMinutes minutes m = m\<lparr>default_snooze_minutes := max 1 (min 60 minutes)\<rparr>"

definition SetDefaultMaxSnoozeCount :: "int \<Rightarrow> AlarmManager \<Rightarrow> AlarmManager" where
  "SetDefaultMaxSnoozeCount n m = m\<lparr>default_max_snooze_count := max 0 (min 10 n)\<rparr>"

section \<open>The next alarm\<close>

text \<open>
  The inner loop \<^verbatim>\<open>for (int day_offset = 0; day_offset < 7; day_offset++)\<close> of
  \<^verbatim>\<open>GetNextAlarmInfo\<close>, from \<open>day_offset\<close> on: \<open>Some time_diff\<close> when it reaches the
  \<^verbatim>\<open>break\<close> with that \<^verbatim>\<open>time_diff\<close>, \<open>None\<close> when it runs out.
\<close>

function day_offset_loop :: "AlarmItem \<Rightarrow> int \<Rightarrow> nat \<Rightarrow> nat \<Rightarrow> int option" where
  "day_offset_loop alarm current_time current_weekday day_offset =
     (if day_offset < 7 then
        let alarm_time = hour alarm * 60 + minute alarm;
            check_weekday = (current_weekday + day_offset) mod 7
        in if day_offset = 0 \<and> alarm_time \<le> current_time
             then day_offset_loop alarm current_time current_weekday (day_offset + 1)
           else if repeat_mode alarm = kAlarmOnce \<and> day_offset > 0
             then day_offset_loop alarm current_time current_weekday (day_offset + 1)
           else if IsWeekdayActive alarm check_weekday then
             let time_diff = int day_offset * 24 * 60 + alarm_time - current_time;
                 time_diff = (if day_offset = 0 then alarm_time - current_time else time_diff)
             in Some time_diff
           else day_offset_loop alarm current_time current_weekday (day_offset + 1)
      else None)"
  by pat_completeness auto
termination
  by (relation "measure (\<lambda>(alarm, current_time, current_weekday, day_offset). 7 - day_offset)") auto

declare day_offset_loop.simps [simp del]

text \<open>
  One round of the outer loop over \<^verbatim>\<open>alarms_\<close>, on the pair
  \<^verbatim>\<open>(next_alarm, min_time_diff)\<close>.
\<close>

definition next_alarm_step ::
  "int \<Rightarrow> nat \<Rightarrow> AlarmItem \<Rightarrow> AlarmItem option \<times> int \<Rightarrow> AlarmItem option \<times> int"
where
  "next_alarm_step current_time current_weekday alarm acc =
     (if status alarm \<noteq> kAlarmEnabled then acc
      else case day_offset_loop alarm current_time current_weekday 0 of
             Some time_diff \<Rightarrow> if time_diff < snd acc then (Some alarm, time_diff) else acc
           | None \<Rightarrow> acc)"

definition next_alarm_search :: "int \<Rightarrow> nat \<Rightarrow> AlarmItem list \<Rightarrow> AlarmItem option \<times> int" where
  "next_alarm_search current_time current_weekday as =
     fold (next_alarm_step current_time current_weekday) as (None, 24 * 60 * 7)"

text \<open>
  Output to a \<^verbatim>\<open>std::ostringstream\<close>: \<open>to_string\<close> is \<^verbatim>\<open>operator<<\<close> on an \<^verbatim>\<open>int\<close>,
  \<open>setw2\<close> is \<^verbatim>\<open>std::setfill('0') << std::setw(2)\<close> before it. \<open>c_div\<close> and \<open>c_mod\<close> are
  the truncating \<^verbatim>\<open>/\<close> and \<^verbatim>\<open>%\<close> of C++. Texts outside ASCII are their UTF-8 bytes.
\<close>

function digits :: "nat \<Rightarrow> string" where
  "digits n =
     (if n < 10 then [char_of (48 + n)] else digits (n div 10) @ [char_of (48 + n mod 10)])"
  by pat_completeness auto
termination
  by (relation "measure (\<lambda>n. n)") auto

declare digits.simps [simp del]

definition to_string :: "int \<Rightarrow> string" where
  "to_string i = (if i < 0 then CHR ''-'' # digits (nat (- i)) else digits (nat i))"

definition setw2 :: "string \<Rightarrow> string" where
  "setw2 s = replicate (2 - length s) CHR ''0'' @ s"

definition FormatTime :: "int \<Rightarrow> int \<Rightarrow> string" where
  "FormatTime h mi = setw2 (to_string h) @ '':'' @ setw2 (to_string mi)"

definition c_div :: "int \<Rightarrow> int \<Rightarrow> int" where
  "c_div a b = sgn a * sgn b * (\<bar>a\<bar> div \<bar>b\<bar>)"

definition c_mod :: "int \<Rightarrow> int \<Rightarrow> int" where
  "c_mod a b = a - b * c_div a b"

definition text_not_initialized :: string where
  "text_not_initialized =
     [CHR 0xE9, CHR 0x97, CHR 0xB9, CHR 0xE9, CHR 0x92, CHR 0x9F, CHR 0xE7, CHR 0xAE, CHR 0xA1,
      CHR 0xE7, CHR 0x90, CHR 0x86, CHR 0xE5, CHR 0x99, CHR 0xA8, CHR 0xE6, CHR 0x9C, CHR 0xAA,
      CHR 0xE5, CHR 0x88, CHR 0x9D, CHR 0xE5, CHR 0xA7, CHR 0x8B, CHR 0xE5, CHR 0x8C, CHR 0x96]"

definition text_no_active_alarms :: string where
  "text_no_active_alarms =
     [CHR 0xE6, CHR 0x97, CHR 0xA0, CHR 0xE6, CHR 0xB4, CHR 0xBB, CHR 0xE5, CHR 0x8A, CHR 0xA8,
      CHR 0xE9, CHR 0x97, CHR 0xB9, CHR 0xE9, CHR 0x92, CHR 0x9F]"

definition text_next_alarm :: string where
  "text_next_alarm =
     [CHR 0xE4, CHR 0xB8, CHR 0x8B, CHR 0xE4, CHR 0xB8, CHR 0xAA, CHR 0xE9, CHR 0x97, CHR 0xB9,
      CHR 0xE9, CHR 0x92, CHR 0x9F, CHR 0x3A, CHR 0x20]"

definition text_hours :: string where
  "text_hours = [CHR 0xE5, CHR 0xB0, CHR 0x8F, CHR 0xE6, CHR 0x97, CHR 0xB6]"

definition text_minutes_later :: string where
  "text_minutes_later =
     [CHR 0xE5, CHR 0x88, CHR 0x86, CHR 0xE9, CHR 0x92, CHR 0x9F, CHR 0xE5, CHR 0x90, CHR 0x8E,
      CHR 0x29]"

definition text_days_later :: string where
  "text_days_later = [CHR 0xE5, CHR 0xA4, CHR 0xA9, CHR 0xE5, CHR 0x90, CHR 0x8E, CHR 0x29]"

text \<open>The text \<^verbatim>\<open>GetNextAlarmInfo\<close> builds once \<^verbatim>\<open>next_alarm\<close> is not null.\<close>

definition format_next_alarm :: "AlarmItem \<Rightarrow> int \<Rightarrow> string" where
  "format_next_alarm next_alarm min_time_diff =
     (let oss = text_next_alarm @ FormatTime (hour next_alarm) (minute next_alarm);
          oss = (if min_time_diff < 24 * 60 then
                   let hours = c_div min_time_diff 60;
                       minutes = c_mod min_time_diff 60
                   in if hours > 0
                      then oss @ '' ('' @ to_string hours @ text_hours @ to_string minutes
                             @ text_minutes_later
                      else oss @ '' ('' @ to_string minutes @ text_minutes_later
                 else
                   let days = c_div min_time_diff (24 * 60)
                   in oss @ '' ('' @ to_string days @ text_days_later)
      in if label next_alarm \<noteq> [] then oss @ '' - '' @ label next_alarm else oss)"

text \<open>
  \<open>current_time\<close> is what \<^verbatim>\<open>GetCurrentTimeInMinutes()\<close> returns and \<open>current_weekday\<close>
  what \<^verbatim>\<open>GetCurrentWeekday()\<close> returns. The method is \<^verbatim>\<open>const\<close>: the manager it leaves
  is the one it found.
\<close>

definition GetNextAlarmInfo :: "int \<Rightarrow> nat \<Rightarrow> AlarmManager \<Rightarrow> (string \<times> AlarmManager) option" where
  "GetNextAlarmInfo current_time current_weekday m =
     (if \<not> initialized m then Some (text_not_initialized, m)
      else lock_guard (\<lambda>m.
        case next_alarm_search current_time current_weekday (alarms m) of
          (None, min_time_diff) \<Rightarrow> Some (text_no_active_alarms, m)
        | (Some next_alarm, min_time_diff) \<Rightarrow>
            Some (format_next_alarm next_alarm min_time_diff, m)) m)"

section \<open>Runs of the public interface\<close>

text \<open>
  One call of a public method, with the arguments and the clock readings it gets.
  \<open>Reboot\<close> is the end of the process without \<^verbatim>\<open>Cleanup\<close> and the start of a new one:
  a freshly constructed manager on the same durable store.
\<close>

datatype command =
    Call_Initialize
  | Call_Cleanup
  | Call_AddAlarm int int AlarmRepeatMode string string
  | Call_RemoveAlarm int
  | Call_EnableAlarm int bool
  | Call_ModifyAlarm int int int AlarmRepeatMode string string
  | Call_SnoozeAlarm int int
  | Call_StopAlarm int
  | Call_StopAllActiveAlarms
  | Call_CheckAlarms clock
  | Call_SetAlarmTriggeredCallback bool
  | Call_SetAlarmSnoozeCallback bool
  | Call_SetAlarmStopCallback bool
  | Call_SetDefaultSnoozeMinutes int
  | Call_SetDefaultMaxSnoozeCount int
  | Reboot

fun exec :: "command \<Rightarrow> AlarmManager \<Rightarrow> AlarmManager option" where
  "exec Call_Initialize m = map_option snd (Initialize m)"
| "exec Call_Cleanup m = map_option snd (Cleanup m)"
| "exec (Call_AddAlarm h mi mode lbl music) m = map_option snd (AddAlarm h mi mode lbl music m)"
| "exec (Call_RemoveAlarm alarm_id) m = map_option snd (RemoveAlarm alarm_id m)"
| "exec (Call_EnableAlarm alarm_id enabled) m = map_option snd (EnableAlarm alarm_id enabled m)"
| "exec (Call_ModifyAlarm alarm_id h mi mode lbl music) m =
     map_option snd (ModifyAlarm alarm_id h mi mode lbl music m)"
| "exec (Call_SnoozeAlarm now alarm_id) m = map_option snd (SnoozeAlarm now alarm_id m)"
| "exec (Call_StopAlarm alarm_id) m = map_option snd (StopAlarm alarm_id m)"
| "exec Call_StopAllActiveAlarms m = map_option snd (StopAllActiveAlarms m)"
| "exec (Call_CheckAlarms clk) m = map_option snd (CheckAlarms clk m)"
| "exec (Call_SetAlarmTriggeredCallback cb) m = Some (SetAlarmTriggeredCallback cb m)"
| "exec (Call_SetAlarmSnoozeCallback cb) m = Some (SetAlarmSnoozeCallback cb m)"
| "exec (Call_SetAlarmStopCallback cb) m = Some (SetAlarmStopCallback cb m)"
| "exec (Call_SetDefaultSnoozeMinutes minutes) m = Some (SetDefaultSnoozeMinutes minutes m)"
| "exec (Call_SetDefaultMaxSnoozeCount n) m = Some (SetDefaultMaxSnoozeCount n m)"
| "exec Reboot m = Some (AlarmManager_new (nvs m))"

text \<open>A sequence of calls, each made after the one before has returned.\<close>

fun run :: "command list \<Rightarrow> AlarmManager \<Rightarrow> AlarmManager option" where
  "run [] m = Some m"
| "run (c # cs) m = (case exec c m of None \<Rightarrow> None | Some m' \<Rightarrow> run cs m')"

text \<open>
  The calls that give the alarm with the id \<open>n\<close> another repeat mode than Custom:
  \<^verbatim>\<open>ModifyAlarm\<close> with that id, a time in range and another repeat mode. And the calls
  after which the list of alarms is dropped: \<^verbatim>\<open>Cleanup\<close> and a restart.
\<close>

fun gives_other_mode :: "int \<Rightarrow> command \<Rightarrow> bool" where
  "gives_other_mode n (Call_ModifyAlarm alarm_id h mi mode lbl music) =
     (alarm_id = n \<and> mode \<noteq> kAlarmCustom \<and> 0 \<le> h \<and> h \<le> 23 \<and> 0 \<le> mi \<and> mi \<le> 59)"
| "gives_other_mode n c = False"

fun drops_alarms :: "command \<Rightarrow> bool" where
  "drops_alarms Call_Cleanup = True"
| "drops_alarms Reboot = True"
| "drops_alarms c = False"

text \<open>
  The ranges of the data model (spec, section 3) for one alarm; what holds of the
  manager, its alarms and its stored records (through what loading makes of them) also
  while a method runs; and what holds between two calls, when the mutex is free.
\<close>

definition alarm_inv :: "AlarmItem \<Rightarrow> bool" where
  "alarm_inv a =
     (0 \<le> hour a \<and> hour a \<le> 23 \<and> 0 \<le> minute a \<and> minute a \<le> 59
      \<and> 1 \<le> snooze_minutes a \<and> snooze_minutes a \<le> 60
      \<and> 0 \<le> max_snooze_count a \<and> max_snooze_count a \<le> 10
      \<and> 0 \<le> snooze_count a \<and> snooze_count a \<le> max_snooze_count a)"

definition storage_inv :: "Settings \<Rightarrow> bool" where
  "storage_inv store = (\<forall>i json. key_alarm store i = Some json \<longrightarrow> alarm_inv (from_json json))"

definition core_inv :: "AlarmManager \<Rightarrow> bool" where
  "core_inv m =
     (list_all alarm_inv (alarms m)
      \<and> 1 \<le> default_snooze_minutes m \<and> default_snooze_minutes m \<le> 60
      \<and> 0 \<le> default_max_snooze_count m \<and> default_max_snooze_count m \<le> 10
      \<and> storage_inv (nvs m)
      \<and> (initialized m \<longrightarrow> settings m)
      \<and> (\<not> initialized m \<longrightarrow> alarms m = []))"

definition manager_inv :: "AlarmManager \<Rightarrow> bool" where
  "manager_inv m = (core_inv m \<and> \<not> alarms_mutex m)"

text \<open>
  A Custom alarm with an empty mask that is neither ringing nor snoozed, as
  \<^verbatim>\<open>AddAlarm(..., kAlarmCustom, ...)\<close> creates it.
\<close>

definition never_due :: "AlarmItem \<Rightarrow> bool" where
  "never_due a =
     (repeat_mode a = kAlarmCustom \<and> weekdays_mask a = 0
      \<and> (status a = kAlarmEnabled \<or> status a = kAlarmDisabled))"

text \<open>
  What holds of every stored record, through what loading makes of it. What holds of the
  id \<open>n\<close> once \<^verbatim>\<open>AddAlarm\<close> has given it to a Custom alarm: every alarm with that id, in
  the list or in the store, is such an alarm, and the id counters, in the manager and in
  the store, are past it. And what holds of the ids on every run: the ids in the list
  and in the store are below the stored counter, which is not above the manager's.
\<close>

definition stored_all :: "(AlarmItem \<Rightarrow> bool) \<Rightarrow> Settings \<Rightarrow> bool" where
  "stored_all P store = (\<forall>i json. key_alarm store i = Some json \<longrightarrow> P (from_json json))"

definition tracked :: "int \<Rightarrow> AlarmItem \<Rightarrow> bool" where
  "tracked n a = (id_field a = n \<longrightarrow> never_due a)"

definition custom_inv :: "int \<Rightarrow> AlarmManager \<Rightarrow> bool" where
  "custom_inv n m =
     (list_all (tracked n) (alarms m) \<and> stored_all (tracked n) (nvs m)
      \<and> n < GetInt (key_next_id (nvs m)) 1 \<and> (initialized m \<longrightarrow> n < next_alarm_id m))"

definition fresh_inv :: "AlarmManager \<Rightarrow> bool" where
  "fresh_inv m =
     (list_all (\<lambda>a. id_field a < GetInt (key_next_id (nvs m)) 1) (alarms m)
      \<and> stored_all (\<lambda>a. id_field a < GetInt (key_next_id (nvs m)) 1) (nvs m)
      \<and> (initialized m \<longrightarrow> GetInt (key_next_id (nvs m)) 1 \<le> next_alarm_id m))"

section \<open>The specification's words, for comparison\<close>

text \<open>
  Spec, sections 3 and 8: Daily has all 7 bits, Weekdays the bits Monday to Friday,
  Weekends the bits Saturday and Sunday (bit \<open>d\<close> is weekday \<open>d\<close>, 0 = Sunday); for Custom
  (and Once) the mask is the one the caller supplies.
\<close>

definition spec_active_weekdays :: "AlarmRepeatMode \<Rightarrow> 8 word \<Rightarrow> nat set" where
  "spec_active_weekdays mode caller_mask =
     (case mode of
        kAlarmDaily \<Rightarrow> {0, 1, 2, 3, 4, 5, 6}
      | kAlarmWeekdays \<Rightarrow> {1, 2, 3, 4, 5}
      | kAlarmWeekends \<Rightarrow> {6, 0}
      | _ \<Rightarrow> {d. bit caller_mask d})"

text \<open>
  Spec, section 3 and glossary: bit \<open>d\<close> of the mask says that the alarm is active on
  weekday \<open>d\<close> (0 = Sunday .. 6 = Saturday); the mask is ignored for Once.
\<close>

definition spec_weekday_active :: "AlarmItem \<Rightarrow> nat \<Rightarrow> bool" where
  "spec_weekday_active a d = (repeat_mode a = kAlarmOnce \<or> bit (weekdays_mask a) d)"

text \<open>
  Spec, section 4.4. For one alarm: the day offsets 0..6 that are not skipped and whose
  weekday is active per the mask, the first of them, and the distance it gives. An
  alarm's time "has passed today" when it is not later than the current minute. Over the
  stored alarms: the Enabled ones that have a distance, each with its distance, and among
  them the first that attains the least distance.
\<close>

definition spec_offsets :: "AlarmItem \<Rightarrow> int \<Rightarrow> nat \<Rightarrow> nat list" where
  "spec_offsets a current_minutes today =
     filter (\<lambda>offset.
        \<not> (offset = 0 \<and> hour a * 60 + minute a \<le> current_minutes)
        \<and> \<not> (offset > 0 \<and> repeat_mode a = kAlarmOnce)
        \<and> spec_weekday_active a ((today + offset) mod 7)) [0 ..< 7]"

definition spec_distance :: "AlarmItem \<Rightarrow> int \<Rightarrow> nat \<Rightarrow> int option" where
  "spec_distance a current_minutes today =
     (case spec_offsets a current_minutes today of
        [] \<Rightarrow> None
      | offset # _ \<Rightarrow> Some (int offset * 1440 + (hour a * 60 + minute a) - current_minutes))"

definition spec_candidates :: "AlarmItem list \<Rightarrow> int \<Rightarrow> nat \<Rightarrow> (AlarmItem \<times> int) list" where
  "spec_candidates as current_minutes today =
     concat (map (\<lambda>a. if status a = kAlarmEnabled
                       then (case spec_distance a current_minutes today of
                               None \<Rightarrow> [] | Some d \<Rightarrow> [(a, d)])
                       else []) as)"

definition spec_next_alarm :: "AlarmItem list \<Rightarrow> int \<Rightarrow> nat \<Rightarrow> (AlarmItem \<times> int) option" where
  "spec_next_alarm as current_minutes today =
     (let cs = spec_candidates as current_minutes today
      in if cs = [] then None else List.find (\<lambda>c. snd c = min_list (map snd cs)) cs)"

text \<open>
  Spec, section 4.1: the description "formats its time and relative distance, and appends
  its label if present". Written out: the words "next alarm", the time as two digits,
  a colon and two digits, then in brackets the distance, in minutes below one hour, in
  hours and minutes below one day and in whole days from there on, then the label after
  a dash when there is one. The words are the source's (in UTF-8); the digits are
  written here without the source's output functions.
\<close>

definition spec_digit :: "int \<Rightarrow> char" where
  "spec_digit n = ''0123456789'' ! nat n"

definition spec_number :: "int \<Rightarrow> string" where
  "spec_number n =
     (if n < 10 then [spec_digit n] else [spec_digit (n div 10), spec_digit (n mod 10)])"

definition spec_clock_time :: "int \<Rightarrow> int \<Rightarrow> string" where
  "spec_clock_time h mi =
     [spec_digit (h div 10), spec_digit (h mod 10), CHR '':'',
      spec_digit (mi div 10), spec_digit (mi mod 10)]"

definition spec_description :: "AlarmItem \<Rightarrow> int \<Rightarrow> string" where
  "spec_description a d =
     text_next_alarm @ spec_clock_time (hour a) (minute a) @ '' (''
     @ (if d < 60 then spec_number d @ text_minutes_later
        else if d < 1440
          then spec_number (d div 60) @ text_hours @ spec_number (d mod 60) @ text_minutes_later
        else spec_number (d div 1440) @ text_days_later)
     @ (if label a = [] then [] else '' - '' @ label a)"

section \<open>Concrete states\<close>

text \<open>
  An alarm as \<^verbatim>\<open>AddAlarm(7, 30, kAlarmDaily, "wake")\<close> leaves it, the same alarm while
  it rings, an initialized manager holding given alarms with all three callbacks
  registered, and a durable store holding the ringing alarm.
\<close>

definition example_alarm :: AlarmItem where
  "example_alarm =
     \<lparr>id_field = 1, hour = 7, minute = 30, repeat_mode = kAlarmDaily, weekdays_mask = 127,
      status = kAlarmEnabled, label = ''wake'', music_name = [], snooze_count = 0,
      max_snooze_count = 3, snooze_minutes = 5, last_triggered_time = 0,
      next_snooze_time = 0\<rparr>"

definition example_manager :: "AlarmItem list \<Rightarrow> AlarmManager" where
  "example_manager as =
     \<lparr>alarms = as, settings = True, initialized = True, next_alarm_id = 2,
      default_snooze_minutes = 5, default_max_snooze_count = 3,
      on_alarm_triggered = True, on_alarm_snoozed = True, on_alarm_stopped = True,
      alarms_mutex = False, nvs = Settings_empty, calls = []\<rparr>"

definition ringing_alarm :: AlarmItem where
  "ringing_alarm = example_alarm\<lparr>status := kAlarmTriggered, last_triggered_time := 1000\<rparr>"

definition example_store :: Settings where
  "example_store =
     \<lparr>key_next_id = Some 2, key_count = Some 1,
      key_alarm = (\<lambda>_. None)(0 \<mapsto> to_json ringing_alarm)\<rparr>"

text \<open>
  The clock readings of a call of \<^verbatim>\<open>CheckAlarms\<close> during which no clock advances, and
  the example alarm after it rang at second 1000 and was stopped.
\<close>

definition clock_at :: "int \<Rightarrow> int \<Rightarrow> nat \<Rightarrow> clock" where
  "clock_at seconds minutes weekday =
     \<lparr>current_time_seconds = seconds, current_time_minutes = minutes,
      current_weekday_at = (\<lambda>k. weekday), current_time_in_seconds = (\<lambda>k. seconds)\<rparr>"

definition stopped_alarm :: AlarmItem where
  "stopped_alarm = example_alarm\<lparr>last_triggered_time := 1000\<rparr>"

text \<open>The example alarm, snoozed once at second 1000 for five minutes.\<close>

definition snoozed_alarm :: AlarmItem where
  "snoozed_alarm =
     example_alarm\<lparr>status := kAlarmSnoozed, snooze_count := 1, last_triggered_time := 1000,
       next_snooze_time := 1300\<rparr>"

text \<open>
  The example alarm ringing for the fourth time, its three snoozes used up, and the calls
  that lead there from the first start on an empty store.
\<close>

definition exhausted_alarm :: AlarmItem where
  "exhausted_alarm = example_alarm\<lparr>status := kAlarmTriggered, snooze_count := 3,
     last_triggered_time := 1000\<rparr>"

definition three_snoozes :: "command list" where
  "three_snoozes =
     [Call_Initialize,
      Call_AddAlarm 7 30 kAlarmDaily ''wake'' [],
      Call_CheckAlarms (clock_at 1000 450 1),
      Call_SnoozeAlarm 1000 1,
      Call_CheckAlarms (clock_at 1300 455 1),
      Call_SnoozeAlarm 1300 1,
      Call_CheckAlarms (clock_at 1600 460 1),
      Call_SnoozeAlarm 1600 1,
      Call_CheckAlarms (clock_at 1900 465 1)]"

text \<open>
  The first start on an empty store with \<^verbatim>\<open>AddAlarm(6, 0, kAlarmDaily, "wake")\<close>, which
  returns the id 1. And calls made after \<^verbatim>\<open>AddAlarm(7, 30, kAlarmCustom, "gym")\<close> has
  then returned the id 2: a check at 07:30 on a Monday, the alarm disabled and enabled
  again, moved to 08:00 with its repeat mode kept, the other alarm moved to 06:30 on
  weekdays, \<^verbatim>\<open>Initialize\<close> once more, \<^verbatim>\<open>Cleanup\<close> and \<^verbatim>\<open>Initialize\<close>, which loads the
  alarms from the store, and a check at 08:00 on a Wednesday.
\<close>

definition first_start :: "command list" where
  "first_start = [Call_Initialize, Call_AddAlarm 6 0 kAlarmDaily ''wake'' []]"

definition custom_calls :: "command list" where
  "custom_calls =
     [Call_CheckAlarms (clock_at 1000 450 1),
      Call_EnableAlarm 2 False,
      Call_EnableAlarm 2 True,
      Call_ModifyAlarm 2 8 0 kAlarmCustom ''gym'' [],
      Call_ModifyAlarm 1 6 30 kAlarmWeekdays ''wake'' [],
      Call_Initialize,
      Call_Cleanup,
      Call_Initialize,
      Call_CheckAlarms (clock_at 175600 480 3)]"

text \<open>
  The scenario of the spec (section 8): an alarm at 08:00 once and an alarm at 08:00 on
  weekdays, in this order.
\<close>

definition once_alarm :: AlarmItem where
  "once_alarm = AlarmItem_new\<lparr>id_field := 1, hour := 8, label := ''once''\<rparr>"

definition weekdays_alarm :: AlarmItem where
  "weekdays_alarm =
     AlarmItem_new\<lparr>id_field := 2, hour := 8, repeat_mode := kAlarmWeekdays,
       weekdays_mask := 0b0111110, label := ''work''\<rparr>"

text \<open>
  \<^verbatim>\<open>AddAlarm(7, 30, kAlarmCustom, "gym")\<close>, which returns the id 2, then
  \<^verbatim>\<open>ModifyAlarm(2, 7, 30, kAlarmOnce, "gym")\<close> and a check at 07:30 on a Monday.
\<close>

definition custom_to_once :: "command list" where
  "custom_to_once =
     [Call_AddAlarm 7 30 kAlarmCustom ''gym'' [],
      Call_ModifyAlarm 2 7 30 kAlarmOnce ''gym'' [],
      Call_CheckAlarms (clock_at 1000 450 1)]"

section \<open>Basic facts\<close>

lemma find_if_Some:
  "find_if alarm_id as = Some it \<Longrightarrow> it < length as \<and> id_field (as ! it) = alarm_id"
  by (induction as arbitrary: it) (auto split: if_splits)

lemma find_if_first:
  "find_if alarm_id as = Some it \<Longrightarrow> j < it \<Longrightarrow> id_field (as ! j) \<noteq> alarm_id"
  by (induction as arbitrary: it j) (auto split: if_splits simp: nth_Cons split: nat.splits)

lemma find_if_None: "find_if alarm_id as = None \<longleftrightarrow> alarm_id \<notin> id_field ` set as"
  by (induction as) auto

lemma lock_guard_free:
  "\<not> alarms_mutex m \<Longrightarrow>
     lock_guard scope m =
       (case scope (m\<lparr>alarms_mutex := True\<rparr>) of
          None \<Rightarrow> None | Some (r, m') \<Rightarrow> Some (r, m'\<lparr>alarms_mutex := False\<rparr>))"
  by (simp add: lock_guard_def)

lemma lock_guard_held: "alarms_mutex m \<Longrightarrow> lock_guard scope m = None"
  by (simp add: lock_guard_def)

lemma assign_if_present:
  "(case x1 of Some v \<Rightarrow> a\<lparr>id_field := v\<rparr> | None \<Rightarrow> a)
     = a\<lparr>id_field := (case x1 of Some v \<Rightarrow> v | None \<Rightarrow> id_field a)\<rparr>"
  "(case x2 of Some v \<Rightarrow> a\<lparr>hour := v\<rparr> | None \<Rightarrow> a)
     = a\<lparr>hour := (case x2 of Some v \<Rightarrow> v | None \<Rightarrow> hour a)\<rparr>"
  "(case x3 of Some v \<Rightarrow> a\<lparr>minute := v\<rparr> | None \<Rightarrow> a)
     = a\<lparr>minute := (case x3 of Some v \<Rightarrow> v | None \<Rightarrow> minute a)\<rparr>"
  "(case x4 of Some v \<Rightarrow> a\<lparr>repeat_mode := v\<rparr> | None \<Rightarrow> a)
     = a\<lparr>repeat_mode := (case x4 of Some v \<Rightarrow> v | None \<Rightarrow> repeat_mode a)\<rparr>"
  "(case x5 of Some v \<Rightarrow> a\<lparr>weekdays_mask := word_of_int v\<rparr> | None \<Rightarrow> a)
     = a\<lparr>weekdays_mask := (case x5 of Some v \<Rightarrow> word_of_int v | None \<Rightarrow> weekdays_mask a)\<rparr>"
  "(case x6 of Some v \<Rightarrow> a\<lparr>status := v\<rparr> | None \<Rightarrow> a)
     = a\<lparr>status := (case x6 of Some v \<Rightarrow> v | None \<Rightarrow> status a)\<rparr>"
  "(case x7 of Some v \<Rightarrow> a\<lparr>label := v\<rparr> | None \<Rightarrow> a)
     = a\<lparr>label := (case x7 of Some v \<Rightarrow> v | None \<Rightarrow> label a)\<rparr>"
  "(case x8 of Some v \<Rightarrow> a\<lparr>music_name := v\<rparr> | None \<Rightarrow> a)
     = a\<lparr>music_name := (case x8 of Some v \<Rightarrow> v | None \<Rightarrow> music_name a)\<rparr>"
  "(case x9 of Some v \<Rightarrow> a\<lparr>snooze_minutes := v\<rparr> | None \<Rightarrow> a)
     = a\<lparr>snooze_minutes := (case x9 of Some v \<Rightarrow> v | None \<Rightarrow> snooze_minutes a)\<rparr>"
  "(case x10 of Some v \<Rightarrow> a\<lparr>max_snooze_count := v\<rparr> | None \<Rightarrow> a)
     = a\<lparr>max_snooze_count := (case x10 of Some v \<Rightarrow> v | None \<Rightarrow> max_snooze_count a)\<rparr>"
  by (simp_all split: option.split)

lemma from_json_eq:
  "from_json json =
     \<lparr>id_field = (case j_id json of Some v \<Rightarrow> v | None \<Rightarrow> 0),
      hour = (case j_hour json of Some v \<Rightarrow> v | None \<Rightarrow> 0),
      minute = (case j_minute json of Some v \<Rightarrow> v | None \<Rightarrow> 0),
      repeat_mode = (case j_repeat json of Some v \<Rightarrow> v | None \<Rightarrow> kAlarmOnce),
      weekdays_mask = (case j_weekdays json of Some v \<Rightarrow> word_of_int v | None \<Rightarrow> 0),
      status = (case j_status json of
                  Some v \<Rightarrow> if v = kAlarmTriggered \<or> v = kAlarmSnoozed then kAlarmEnabled else v
                | None \<Rightarrow> kAlarmEnabled),
      label = (case j_label json of Some v \<Rightarrow> v | None \<Rightarrow> []),
      music_name = (case j_music json of Some v \<Rightarrow> v | None \<Rightarrow> []),
      snooze_count = 0,
      max_snooze_count = (case j_max_snooze json of Some v \<Rightarrow> v | None \<Rightarrow> 3),
      snooze_minutes = (case j_snooze_minutes json of Some v \<Rightarrow> v | None \<Rightarrow> 5),
      last_triggered_time = 0,
      next_snooze_time = 0\<rparr>"
  by (cases "j_status json")
     (simp_all add: from_json_def assign_if_present AlarmItem_new_def cong: option.case_cong)

lemma load_loop_set:
  "a \<in> set (load_loop store n) \<Longrightarrow>
     \<exists>i json. i < nat n \<and> key_alarm store i = Some json \<and> a = from_json json"
  by (auto simp: load_loop_def split: option.splits) (metis)

lemma LoadAlarms_alarms:
  "LoadAlarmsFromStorage m = Some (r, m') \<Longrightarrow>
     alarms m' = load_loop (nvs m) (GetInt (key_count (nvs m)) 0) \<and> nvs m' = nvs m"
  by (auto simp: LoadAlarmsFromStorage_def lock_guard_def Let_def split: if_splits)

lemma from_json_to_json:
  "from_json (to_json a) =
     a\<lparr>snooze_count := 0, last_triggered_time := 0, next_snooze_time := 0,
       status := (if status a = kAlarmTriggered \<or> status a = kAlarmSnoozed
                  then kAlarmEnabled else status a)\<rparr>"
  by (simp add: from_json_eq) (simp add: to_json_def)

lemma bit_set_8:
  "{d. bit (w :: 8 word) d} = set (filter (bit w) [0, 1, 2, 3, 4, 5, 6, 7])"
proof -
  have "bit w d \<Longrightarrow> d < 8" for d
    using bit_imp_le_length [of w d] by simp
  moreover have "d < 8 \<longleftrightarrow> d \<in> {0, 1, 2, 3, 4, 5, 6, 7}" for d :: nat
    by auto
  ultimately show ?thesis
    by auto
qed

lemma mask_bits:
  "{d. bit (0b1111111 :: 8 word) d} = {0, 1, 2, 3, 4, 5, 6}"
  "{d. bit (0b0111110 :: 8 word) d} = {1, 2, 3, 4, 5}"
  "{d. bit (0b1000001 :: 8 word) d} = {6, 0}"
  unfolding bit_set_8 by (simp_all add: insert_commute)

lemma IsWeekdayActive_bit:
  "IsWeekdayActive a weekday \<longleftrightarrow> repeat_mode a = kAlarmOnce \<or> bit (weekdays_mask a) weekday"
proof -
  have "bit (uint (weekdays_mask a)) weekday \<longleftrightarrow> uint (weekdays_mask a) AND push_bit weekday 1 \<noteq> 0"
    by (rule bit_iff_and_push_bit_not_eq_0)
  moreover have "bit (weekdays_mask a) weekday \<Longrightarrow> weekday < 8"
    using bit_imp_le_length [of "weekdays_mask a" weekday] by simp
  ultimately show ?thesis
    by (auto simp add: IsWeekdayActive_def bit_uint_iff simp del: push_bit_of_1)
qed

lemma SaveAlarmToStorage_frame [simp]:
  "alarms (SaveAlarmToStorage a m) = alarms m"
  "settings (SaveAlarmToStorage a m) = settings m"
  "initialized (SaveAlarmToStorage a m) = initialized m"
  "next_alarm_id (SaveAlarmToStorage a m) = next_alarm_id m"
  "default_snooze_minutes (SaveAlarmToStorage a m) = default_snooze_minutes m"
  "default_max_snooze_count (SaveAlarmToStorage a m) = default_max_snooze_count m"
  "on_alarm_triggered (SaveAlarmToStorage a m) = on_alarm_triggered m"
  "on_alarm_snoozed (SaveAlarmToStorage a m) = on_alarm_snoozed m"
  "on_alarm_stopped (SaveAlarmToStorage a m) = on_alarm_stopped m"
  "alarms_mutex (SaveAlarmToStorage a m) = alarms_mutex m"
  "calls (SaveAlarmToStorage a m) = calls m"
  by (simp_all add: SaveAlarmToStorage_def split: option.split)

lemma assign_frame [simp]:
  "alarms (assign it f m) = (alarms m)[it := f (alarms m ! it)]"
  "settings (assign it f m) = settings m"
  "initialized (assign it f m) = initialized m"
  "next_alarm_id (assign it f m) = next_alarm_id m"
  "default_snooze_minutes (assign it f m) = default_snooze_minutes m"
  "default_max_snooze_count (assign it f m) = default_max_snooze_count m"
  "on_alarm_triggered (assign it f m) = on_alarm_triggered m"
  "on_alarm_snoozed (assign it f m) = on_alarm_snoozed m"
  "on_alarm_stopped (assign it f m) = on_alarm_stopped m"
  "alarms_mutex (assign it f m) = alarms_mutex m"
  "nvs (assign it f m) = nvs m"
  "calls (assign it f m) = calls m"
  by (simp_all add: assign_def)

lemma invoke_frame [simp]:
  "alarms (invoke b c m) = alarms m"
  "settings (invoke b c m) = settings m"
  "initialized (invoke b c m) = initialized m"
  "next_alarm_id (invoke b c m) = next_alarm_id m"
  "default_snooze_minutes (invoke b c m) = default_snooze_minutes m"
  "default_max_snooze_count (invoke b c m) = default_max_snooze_count m"
  "on_alarm_triggered (invoke b c m) = on_alarm_triggered m"
  "on_alarm_snoozed (invoke b c m) = on_alarm_snoozed m"
  "on_alarm_stopped (invoke b c m) = on_alarm_stopped m"
  "alarms_mutex (invoke b c m) = alarms_mutex m"
  "nvs (invoke b c m) = nvs m"
  "calls (invoke b c m) = (if b then calls m @ [c] else calls m)"
  by (simp_all add: invoke_def)

lemma AddAlarm_valid:
  assumes "initialized m" and "settings m" and "\<not> alarms_mutex m"
    and "0 \<le> h" and "h \<le> 23" and "0 \<le> mi" and "mi \<le> 59"
  shows "\<exists>m'. AddAlarm h mi mode lbl music m = Some (next_alarm_id m, m')
           \<and> alarms m' = alarms m @
               [\<lparr>id_field = next_alarm_id m, hour = h, minute = mi, repeat_mode = mode,
                 weekdays_mask = (case mode of kAlarmDaily \<Rightarrow> 0b1111111
                                  | kAlarmWeekdays \<Rightarrow> 0b0111110
                                  | kAlarmWeekends \<Rightarrow> 0b1000001 | _ \<Rightarrow> 0),
                 status = kAlarmEnabled, label = lbl, music_name = music, snooze_count = 0,
                 max_snooze_count = default_max_snooze_count m,
                 snooze_minutes = default_snooze_minutes m,
                 last_triggered_time = 0, next_snooze_time = 0\<rparr>]
           \<and> calls m' = calls m"
  using assms
  by (cases mode)
     (simp_all add: AddAlarm_def lock_guard_def GetNextAlarmId_def AlarmItem_new_def Let_def)

lemma ModifyAlarm_valid:
  assumes "initialized m" and "\<not> alarms_mutex m"
    and "0 \<le> h" and "h \<le> 23" and "0 \<le> mi" and "mi \<le> 59"
    and "find_if alarm_id (alarms m) = Some it"
  shows "\<exists>m'. ModifyAlarm alarm_id h mi mode lbl music m = Some (True, m')
           \<and> alarms m' = (alarms m)
               [it := (alarms m ! it)
                  \<lparr>hour := h, minute := mi, repeat_mode := mode, label := lbl,
                   music_name := music,
                   weekdays_mask := (case mode of kAlarmDaily \<Rightarrow> 0b1111111
                                     | kAlarmWeekdays \<Rightarrow> 0b0111110
                                     | kAlarmWeekends \<Rightarrow> 0b1000001
                                     | _ \<Rightarrow> weekdays_mask (alarms m ! it))\<rparr>]
           \<and> calls m' = calls m"
proof -
  have "it < length (alarms m)"
    using assms(7) by (simp add: find_if_Some)
  then show ?thesis
    using assms
    by (cases mode)
       (simp_all add: ModifyAlarm_def lock_guard_def Let_def)
qed

section \<open>Facts about the loops and the callback log\<close>

lemma for_each_frame [simp]:
  "settings (for_each body m) = settings m"
  "initialized (for_each body m) = initialized m"
  "next_alarm_id (for_each body m) = next_alarm_id m"
  "default_snooze_minutes (for_each body m) = default_snooze_minutes m"
  "default_max_snooze_count (for_each body m) = default_max_snooze_count m"
  "on_alarm_triggered (for_each body m) = on_alarm_triggered m"
  "on_alarm_snoozed (for_each body m) = on_alarm_snoozed m"
  "on_alarm_stopped (for_each body m) = on_alarm_stopped m"
  "alarms_mutex (for_each body m) = alarms_mutex m"
  "nvs (for_each body m) = nvs m"
  by (simp_all add: for_each_def Let_def)

lemma for_each_length [simp]: "length (alarms (for_each body m)) = length (alarms m)"
  by (simp add: for_each_def Let_def)

lemma for_each_nth:
  "i < length (alarms m) \<Longrightarrow> alarms (for_each body m) ! i = fst (body i (alarms m ! i))"
  by (simp add: for_each_def Let_def nth_enumerate_eq)

lemma for_each_calls:
  "calls (for_each body m)
     = calls m @ concat (map (\<lambda>(k, a). snd (body k a)) (enumerate 0 (alarms m)))"
  by (simp add: for_each_def Let_def comp_def case_prod_unfold)

lemma for_each_mutex:
  "\<not> alarms_mutex m \<Longrightarrow> (for_each body (m\<lparr>alarms_mutex := True\<rparr>))\<lparr>alarms_mutex := False\<rparr> = for_each body m"
  by (simp add: for_each_def Let_def)

lemma CheckAlarms_free:
  "initialized m \<Longrightarrow> \<not> alarms_mutex m \<Longrightarrow>
     CheckAlarms clk m = Some ((), for_each (CheckAlarms_body clk (on_alarm_triggered m)) m)"
  by (simp add: CheckAlarms_def lock_guard_def for_each_mutex)

lemma StopAllActiveAlarms_free:
  "initialized m \<Longrightarrow> \<not> alarms_mutex m \<Longrightarrow>
     StopAllActiveAlarms m
       = Some ((), for_each (\<lambda>k. StopAllActiveAlarms_body (on_alarm_stopped m)) m)"
  by (simp add: StopAllActiveAlarms_def lock_guard_def for_each_mutex)

lemma concat_nth_split:
  "i < length xss \<Longrightarrow> concat xss = concat (take i xss) @ xss ! i @ concat (drop (Suc i) xss)"
  by (metis append_Cons append_Nil concat.simps(2) concat_append id_take_nth_drop)

lemma calls_for_append [simp]: "calls_for x (cs @ ds) = calls_for x cs @ calls_for x ds"
  by (simp add: calls_for_def)

lemma calls_for_other:
  assumes "\<And>k a. \<forall>c \<in> set (snd (body k a)). id_field (callback_alarm c) = id_field a"
    and "\<forall>a \<in> set as. id_field a \<noteq> x"
  shows "calls_for x (concat (map (\<lambda>(k, a). snd (body k a)) (enumerate n as))) = []"
  using assms(2)
proof (induction as arbitrary: n)
  case Nil
  then show ?case by (simp add: calls_for_def)
next
  case (Cons a as)
  have "calls_for x (snd (body n a)) = []"
    using assms(1) [of n a] Cons.prems by (auto simp: calls_for_def filter_empty_conv)
  with Cons show ?case by simp
qed

lemma calls_for_own:
  assumes "\<And>k a. \<forall>c \<in> set (snd (body k a)). id_field (callback_alarm c) = id_field a"
    and "distinct (map id_field as)" and "i < length as"
  shows "calls_for (id_field (as ! i))
           (concat (map (\<lambda>(k, a). snd (body k a)) (enumerate n as)))
         = snd (body (n + i) (as ! i))"
  using assms(2,3)
proof (induction as arbitrary: n i)
  case Nil
  then show ?case by simp
next
  case (Cons a as)
  show ?case
  proof (cases i)
    case 0
    have own: "calls_for (id_field a) (snd (body n a)) = snd (body n a)"
      using assms(1) [of n a] by (auto simp: calls_for_def)
    have notin: "id_field a \<notin> id_field ` set as"
      using Cons.prems(1) by simp
    have "\<forall>b \<in> set as. id_field b \<noteq> id_field a"
    proof
      fix b assume "b \<in> set as"
      then have "id_field b \<in> id_field ` set as" by (rule imageI)
      with notin show "id_field b \<noteq> id_field a" by metis
    qed
    then have "calls_for (id_field a)
        (concat (map (\<lambda>(k, a). snd (body k a)) (enumerate (Suc n) as))) = []"
      by (rule calls_for_other [OF assms(1)])
    with own 0 show ?thesis by simp
  next
    case (Suc j)
    then have j: "j < length as" and d: "distinct (map id_field as)"
      using Cons.prems by auto
    have notin: "id_field a \<notin> id_field ` set as"
      using Cons.prems(1) by simp
    have "id_field (as ! j) \<in> id_field ` set as"
      using j by simp
    with notin have "id_field (as ! j) \<noteq> id_field a"
      by metis
    then have "calls_for (id_field (as ! j)) (snd (body n a)) = []"
      using assms(1) [of n a] by (auto simp: calls_for_def filter_empty_conv)
    with Cons.IH [OF d j, of "Suc n"] Suc show ?thesis by simp
  qed
qed

lemma CheckAlarms_body_id:
  "id_field (fst (CheckAlarms_body clk reg k a)) = id_field a"
  "\<forall>c \<in> set (snd (CheckAlarms_body clk reg k a)). id_field (callback_alarm c) = id_field a"
  by (simp_all add: CheckAlarms_body_def Let_def)

lemma for_each_ids:
  "(\<And>k a. id_field (fst (body k a)) = id_field a) \<Longrightarrow>
     map id_field (alarms (for_each body m)) = map id_field (alarms m)"
  by (rule nth_equalityI) (simp_all add: for_each_nth)


lemma CheckAlarms_body_snoozed:
  "status a = kAlarmSnoozed \<Longrightarrow> next_snooze_time a \<le> current_time_seconds clk \<Longrightarrow>
     CheckAlarms_body clk reg k a
       = (a\<lparr>status := kAlarmTriggered, next_snooze_time := 0\<rparr>,
          if reg then [OnAlarmTriggered (a\<lparr>status := kAlarmTriggered, next_snooze_time := 0\<rparr>)]
          else [])"
  by (simp add: CheckAlarms_body_def Let_def)

lemma CheckAlarms_body_fire:
  "status a = kAlarmEnabled \<Longrightarrow> hour a * 60 + minute a = current_time_minutes clk \<Longrightarrow>
   ShouldTriggerToday (current_weekday_at clk k) a \<Longrightarrow>
   \<not> (last_triggered_time a > 0 \<and> current_time_in_seconds clk k - last_triggered_time a < 60) \<Longrightarrow>
     CheckAlarms_body clk reg k a
       = (a\<lparr>status := kAlarmTriggered, last_triggered_time := current_time_in_seconds clk k,
             snooze_count := 0\<rparr>,
          if reg then [OnAlarmTriggered
                 (a\<lparr>status := kAlarmTriggered,
                    last_triggered_time := current_time_in_seconds clk k, snooze_count := 0\<rparr>)]
          else [])"
  by (auto simp add: CheckAlarms_body_def Let_def)

lemma CheckAlarms_body_idle:
  "status a = kAlarmTriggered \<or> status a = kAlarmDisabled \<Longrightarrow>
     CheckAlarms_body clk reg k a = (a, [])"
  by (auto simp add: CheckAlarms_body_def)

lemma CheckAlarms_body_held:
  "status a = kAlarmEnabled \<Longrightarrow> 0 < last_triggered_time a \<Longrightarrow>
   current_time_in_seconds clk k - last_triggered_time a < 60 \<Longrightarrow>
     CheckAlarms_body clk reg k a = (a, [])"
  by (simp add: CheckAlarms_body_def)

lemma CheckAlarms_calls_for:
  assumes "initialized m" and "\<not> alarms_mutex m" and "distinct (map id_field (alarms m))"
    and "i < length (alarms m)"
  shows "calls_for (id_field (alarms m ! i)) (calls (snd (the (CheckAlarms clk m))))
         = calls_for (id_field (alarms m ! i)) (calls m)
           @ snd (CheckAlarms_body clk (on_alarm_triggered m) i (alarms m ! i))"
  using calls_for_own [of "CheckAlarms_body clk (on_alarm_triggered m)" "alarms m" i 0]
    assms CheckAlarms_body_id(2)
  by (simp add: CheckAlarms_free for_each_calls)

lemma example_manager_simps [simp]:
  "alarms (example_manager as) = as"
  "initialized (example_manager as)"
  "settings (example_manager as)"
  "\<not> alarms_mutex (example_manager as)"
  "on_alarm_triggered (example_manager as)"
  "on_alarm_snoozed (example_manager as)"
  "on_alarm_stopped (example_manager as)"
  "calls (example_manager as) = []"
  by (simp_all add: example_manager_def)

lemma clock_at_simps [simp]:
  "current_time_seconds (clock_at s mi wd) = s"
  "current_time_minutes (clock_at s mi wd) = mi"
  "current_weekday_at (clock_at s mi wd) k = wd"
  "current_time_in_seconds (clock_at s mi wd) k = s"
  by (simp_all add: clock_at_def)

section \<open>The ranges hold on every run\<close>

lemma alarm_inv_from_to_json: "alarm_inv a \<Longrightarrow> alarm_inv (from_json (to_json a))"
  by (simp add: from_json_to_json alarm_inv_def)

lemma storage_inv_updates [simp]:
  "storage_inv (store\<lparr>key_next_id := v\<rparr>) = storage_inv store"
  "storage_inv (store\<lparr>key_count := w\<rparr>) = storage_inv store"
  by (simp_all add: storage_inv_def)

lemma storage_inv_Save:
  "storage_inv (nvs m) \<Longrightarrow> alarm_inv a \<Longrightarrow> storage_inv (nvs (SaveAlarmToStorage a m))"
  by (auto simp: storage_inv_def SaveAlarmToStorage_def alarm_inv_from_to_json
      split: option.splits if_splits)

lemma list_all_update:
  "list_all P xs \<Longrightarrow> (i < length xs \<longrightarrow> P a) \<Longrightarrow> list_all P (xs[i := a])"
  by (cases "i < length xs") (auto simp: list_all_length nth_list_update)

lemma list_all_nth: "list_all P xs \<Longrightarrow> i < length xs \<Longrightarrow> P (xs ! i)"
  by (simp add: list_all_length)

lemma core_inv_fold_Save:
  "core_inv m \<Longrightarrow> list_all alarm_inv as \<Longrightarrow> core_inv (fold SaveAlarmToStorage as m)"
proof (induction as arbitrary: m)
  case Nil
  then show ?case by simp
next
  case (Cons a as)
  from Cons.prems have "core_inv (SaveAlarmToStorage a m)"
    by (simp add: core_inv_def storage_inv_Save)
  with Cons show ?case by simp
qed

lemma list_all_for_each:
  "list_all P (alarms m) \<Longrightarrow> (\<And>k a. P a \<Longrightarrow> P (fst (body k a))) \<Longrightarrow>
     list_all P (alarms (for_each body m))"
  by (auto simp: list_all_length for_each_nth)

lemma lock_guard_inv:
  assumes "lock_guard scope m = Some (r, m')" and "manager_inv m"
    and "\<And>m2. scope (m\<lparr>alarms_mutex := True\<rparr>) = Some (r, m2) \<Longrightarrow> core_inv m \<Longrightarrow> core_inv m2"
  shows "manager_inv m'"
proof -
  from assms(2) have free: "\<not> alarms_mutex m" and core: "core_inv m"
    by (simp_all add: manager_inv_def)
  from assms(1) free obtain m2 where m2: "scope (m\<lparr>alarms_mutex := True\<rparr>) = Some (r, m2)"
    and m': "m' = m2\<lparr>alarms_mutex := False\<rparr>"
    by (auto simp: lock_guard_def split: option.splits)
  from assms(3) [OF m2 core] show ?thesis
    by (simp add: m' manager_inv_def core_inv_def)
qed

lemma inv_Initialize:
  assumes "manager_inv m" and "Initialize m = Some (r, m')"
  shows "manager_inv m'"
proof (cases "initialized m")
  case True
  with assms show ?thesis by (simp add: Initialize_def)
next
  case False
  from assms(1) have free: "\<not> alarms_mutex m" and core: "core_inv m"
    by (simp_all add: manager_inv_def)
  have m': "m' = m\<lparr>settings := True,
      alarms := load_loop (nvs m) (GetInt (key_count (nvs m)) 0), alarms_mutex := False,
      next_alarm_id := GetInt (key_next_id (nvs m)) 1, initialized := True\<rparr>"
    using assms(2) False free
    by (auto simp add: Initialize_def LoadAlarmsFromStorage_def lock_guard_def Let_def)
  have "alarm_inv a" if "a \<in> set (load_loop (nvs m) (GetInt (key_count (nvs m)) 0))" for a
    using load_loop_set [OF that] core by (auto simp: core_inv_def storage_inv_def)
  then have "list_all alarm_inv (load_loop (nvs m) (GetInt (key_count (nvs m)) 0))"
    by (simp add: list_all_iff)
  with core free show ?thesis
    by (simp add: m' manager_inv_def core_inv_def)
qed

lemma inv_AddAlarm:
  assumes "manager_inv m" and "AddAlarm h mi mode lbl music m = Some (r, m')"
  shows "manager_inv m'"
  using assms(2,1) unfolding AddAlarm_def
  by (cases mode)
     (auto simp: core_inv_def GetNextAlarmId_def Let_def AlarmItem_new_def alarm_inv_def
        storage_inv_Save split: if_splits elim!: lock_guard_inv)

lemma alarm_inv_frame [simp]:
  "alarm_inv (a\<lparr>id_field := n\<rparr>) = alarm_inv a"
  "alarm_inv (a\<lparr>repeat_mode := mode\<rparr>) = alarm_inv a"
  "alarm_inv (a\<lparr>weekdays_mask := w\<rparr>) = alarm_inv a"
  "alarm_inv (a\<lparr>status := s\<rparr>) = alarm_inv a"
  "alarm_inv (a\<lparr>label := l\<rparr>) = alarm_inv a"
  "alarm_inv (a\<lparr>music_name := l\<rparr>) = alarm_inv a"
  "alarm_inv (a\<lparr>last_triggered_time := t\<rparr>) = alarm_inv a"
  "alarm_inv (a\<lparr>next_snooze_time := t\<rparr>) = alarm_inv a"
  by (simp_all add: alarm_inv_def)

lemma alarm_inv_time:
  "alarm_inv a \<Longrightarrow> alarm_inv (a\<lparr>hour := h\<rparr>) = (0 \<le> h \<and> h \<le> 23)"
  "alarm_inv a \<Longrightarrow> alarm_inv (a\<lparr>minute := mi\<rparr>) = (0 \<le> mi \<and> mi \<le> 59)"
  by (simp_all add: alarm_inv_def)

lemma alarm_inv_count:
  "alarm_inv a \<Longrightarrow> alarm_inv (a\<lparr>snooze_count := c\<rparr>) = (0 \<le> c \<and> c \<le> max_snooze_count a)"
  "alarm_inv a \<Longrightarrow> 0 \<le> max_snooze_count a"
  "alarm_inv a \<Longrightarrow> 0 \<le> snooze_count a"
  by (simp_all add: alarm_inv_def)

lemmas inv_simps =
  core_inv_def Let_def list_all_update list_all_nth storage_inv_Save alarm_inv_time
  alarm_inv_count list_all_for_each

lemma inv_EnableAlarm:
  assumes "manager_inv m" and "EnableAlarm alarm_id enabled m = Some (r, m')"
  shows "manager_inv m'"
  using assms(2,1) unfolding EnableAlarm_def
  by (auto simp: inv_simps dest!: find_if_Some split: option.splits if_splits
      elim!: lock_guard_inv)

lemma inv_ModifyAlarm:
  assumes "manager_inv m" and "ModifyAlarm alarm_id h mi mode lbl music m = Some (r, m')"
  shows "manager_inv m'"
  using assms(2,1) unfolding ModifyAlarm_def
  by (cases mode)
     (auto simp: inv_simps dest!: find_if_Some split: option.splits if_splits
        elim!: lock_guard_inv)

lemma inv_StopAlarm:
  assumes "manager_inv m" and "StopAlarm alarm_id m = Some (r, m')"
  shows "manager_inv m'"
  using assms(2,1) unfolding StopAlarm_def
  by (auto simp: inv_simps dest!: find_if_Some split: option.splits if_splits
      elim!: lock_guard_inv)

lemma StopAlarm_held: "initialized m \<Longrightarrow> alarms_mutex m \<Longrightarrow> StopAlarm alarm_id m = None"
  by (simp add: StopAlarm_def lock_guard_def)

lemma inv_SnoozeAlarm:
  assumes "manager_inv m" and "SnoozeAlarm now alarm_id m = Some (r, m')"
  shows "manager_inv m'"
  using assms(2,1) unfolding SnoozeAlarm_def
  by (auto simp: inv_simps StopAlarm_held dest!: find_if_Some split: option.splits if_splits
      elim!: lock_guard_inv)


lemma alarm_inv_CheckAlarms_body:
  "alarm_inv a \<Longrightarrow> alarm_inv (fst (CheckAlarms_body clk reg k a))"
  by (simp add: CheckAlarms_body_def Let_def alarm_inv_count)

lemma alarm_inv_StopAll_body:
  "alarm_inv a \<Longrightarrow> alarm_inv (fst (StopAllActiveAlarms_body reg a))"
  by (simp add: StopAllActiveAlarms_body_def Let_def alarm_inv_count)

lemma core_inv_mutex [simp]: "core_inv (m\<lparr>alarms_mutex := b\<rparr>) = core_inv m"
  by (simp add: core_inv_def)

lemma for_each_empty [simp]: "alarms (for_each body m) = [] \<longleftrightarrow> alarms m = []"
  using for_each_length [of body m] by (simp only: length_0_conv [symmetric])

lemma core_inv_for_each:
  "core_inv m \<Longrightarrow> (\<And>k a. alarm_inv a \<Longrightarrow> alarm_inv (fst (body k a))) \<Longrightarrow>
     core_inv (for_each body m)"
  by (simp add: core_inv_def list_all_for_each)

lemma inv_CheckAlarms:
  assumes "manager_inv m" and "CheckAlarms clk m = Some (r, m')"
  shows "manager_inv m'"
  using assms(2,1) unfolding CheckAlarms_def
  by (auto simp: core_inv_for_each alarm_inv_CheckAlarms_body split: if_splits
      elim!: lock_guard_inv)

lemma inv_StopAllActiveAlarms:
  assumes "manager_inv m" and "StopAllActiveAlarms m = Some (r, m')"
  shows "manager_inv m'"
  using assms(2,1) unfolding StopAllActiveAlarms_def
  by (auto simp: core_inv_for_each alarm_inv_StopAll_body split: if_splits
      elim!: lock_guard_inv)

lemma inv_SaveAlarmsToStorage:
  assumes "manager_inv m" and "SaveAlarmsToStorage m = Some (r, m')"
  shows "manager_inv m'"
  using assms(2,1) unfolding SaveAlarmsToStorage_def
  by (auto simp: Let_def split: if_splits elim!: lock_guard_inv
      intro!: core_inv_fold_Save) (simp_all add: core_inv_def)

lemma SaveAlarmsToStorage_held:
  "settings m \<Longrightarrow> alarms_mutex m \<Longrightarrow> SaveAlarmsToStorage m = None"
  by (simp add: SaveAlarmsToStorage_def lock_guard_def)

lemma fold_Save_frame [simp]:
  "alarms (fold SaveAlarmToStorage as m) = alarms m"
  "settings (fold SaveAlarmToStorage as m) = settings m"
  "initialized (fold SaveAlarmToStorage as m) = initialized m"
  by (induction as arbitrary: m) simp_all

lemma inv_Cleanup:
  assumes "manager_inv m" and "Cleanup m = Some (r, m')"
  shows "manager_inv m'"
proof (cases "initialized m")
  case False
  with assms show ?thesis by (simp add: Cleanup_def)
next
  case True
  from assms(2) True obtain m1 m2 m3 where
    1: "StopAllActiveAlarms m = Some ((), m1)" and
    2: "SaveAlarmsToStorage m1 = Some ((), m2)" and
    3: "lock_guard (\<lambda>m. Some ((), m\<lparr>alarms := []\<rparr>)) m2 = Some ((), m3)" and
    m': "m' = m3\<lparr>settings := False, initialized := False\<rparr>"
    by (auto simp: Cleanup_def split: Option.bind_splits)
  have "manager_inv m2"
    using inv_SaveAlarmsToStorage [OF inv_StopAllActiveAlarms [OF assms(1) 1] 2] .
  then have "core_inv m2" "\<not> alarms_mutex m2"
    by (simp_all add: manager_inv_def)
  with 3 have "m3 = m2\<lparr>alarms := [], alarms_mutex := False\<rparr>"
    by (auto simp: lock_guard_def)
  with \<open>core_inv m2\<close> show ?thesis
    by (simp add: m' manager_inv_def core_inv_def)
qed

lemma inv_RemoveAlarm:
  assumes "manager_inv m" and "RemoveAlarm alarm_id m = Some (r, m')"
  shows "manager_inv m'"
proof -
  from assms(1) have s: "initialized m \<longrightarrow> settings m"
    by (simp add: manager_inv_def core_inv_def)
  show ?thesis
    using assms(2,1) s unfolding RemoveAlarm_def RemoveAlarmFromStorage_def
    by (auto simp: SaveAlarmsToStorage_held split: if_splits option.splits
        elim!: lock_guard_inv)
qed

lemma inv_setters:
  "manager_inv m \<Longrightarrow> manager_inv (SetAlarmTriggeredCallback cb m)"
  "manager_inv m \<Longrightarrow> manager_inv (SetAlarmSnoozeCallback cb m)"
  "manager_inv m \<Longrightarrow> manager_inv (SetAlarmStopCallback cb m)"
  "manager_inv m \<Longrightarrow> manager_inv (SetDefaultSnoozeMinutes minutes m)"
  "manager_inv m \<Longrightarrow> manager_inv (SetDefaultMaxSnoozeCount n m)"
  by (simp_all add: manager_inv_def core_inv_def SetAlarmTriggeredCallback_def
      SetAlarmSnoozeCallback_def SetAlarmStopCallback_def SetDefaultSnoozeMinutes_def
      SetDefaultMaxSnoozeCount_def)

lemma inv_Reboot: "manager_inv m \<Longrightarrow> manager_inv (AlarmManager_new (nvs m))"
  by (simp add: manager_inv_def core_inv_def AlarmManager_new_def)

lemma inv_new: "manager_inv (AlarmManager_new Settings_empty)"
  by (simp add: manager_inv_def core_inv_def AlarmManager_new_def Settings_empty_def
      storage_inv_def)

lemma inv_exec: "manager_inv m \<Longrightarrow> exec c m = Some m' \<Longrightarrow> manager_inv m'"
  by (cases c)
     (auto simp: inv_setters inv_Reboot
        dest: inv_Initialize inv_Cleanup inv_AddAlarm inv_RemoveAlarm inv_EnableAlarm
          inv_ModifyAlarm inv_SnoozeAlarm inv_StopAlarm inv_StopAllActiveAlarms inv_CheckAlarms)

lemma inv_run: "manager_inv m \<Longrightarrow> run cs m = Some m' \<Longrightarrow> manager_inv m'"
  by (induction cs arbitrary: m) (auto split: option.splits dest: inv_exec)

lemma reachable_inv: "run cs (AlarmManager_new Settings_empty) = Some m \<Longrightarrow> manager_inv m"
  using inv_new by (rule inv_run)

lemma reachable_ranges:
  assumes "run cs (AlarmManager_new Settings_empty) = Some m" and "a \<in> set (alarms m)"
  shows "0 \<le> hour a \<and> hour a \<le> 23 \<and> 0 \<le> minute a \<and> minute a \<le> 59
       \<and> 1 \<le> snooze_minutes a \<and> snooze_minutes a \<le> 60
       \<and> 0 \<le> max_snooze_count a \<and> max_snooze_count a \<le> 10
       \<and> 0 \<le> snooze_count a \<and> snooze_count a \<le> max_snooze_count a"
  using reachable_inv [OF assms(1)] assms(2)
  by (simp add: manager_inv_def core_inv_def list_all_iff alarm_inv_def)

section \<open>Facts about snoozing and stopping\<close>

lemma run_three_snoozes:
  "map_option alarms (run three_snoozes (AlarmManager_new Settings_empty)) = Some [exhausted_alarm]"
  by (simp add: three_snoozes_def AlarmManager_new_def Settings_empty_def Initialize_def
      LoadAlarmsFromStorage_def lock_guard_def GetInt_def load_loop_def AddAlarm_def
      GetNextAlarmId_def AlarmItem_new_def SaveAlarmToStorage_def CheckAlarms_def for_each_def
      CheckAlarms_body_def ShouldTriggerToday_def IsWeekdayActive_def SnoozeAlarm_def
      assign_def invoke_def clock_at_def exhausted_alarm_def example_alarm_def Let_def)


lemma StopAlarm_active:
  assumes "initialized m" and "\<not> alarms_mutex m" and "find_if alarm_id (alarms m) = Some it"
    and "status (alarms m ! it) = kAlarmTriggered \<or> status (alarms m ! it) = kAlarmSnoozed"
  shows "StopAlarm alarm_id m
    = Some (True,
        m\<lparr>alarms := (alarms m)
             [it := (alarms m ! it)
                \<lparr>status := (if repeat_mode (alarms m ! it) = kAlarmOnce then kAlarmDisabled
                             else kAlarmEnabled),
                 snooze_count := 0, next_snooze_time := 0\<rparr>],
          calls := calls m @
             (if on_alarm_stopped m
              then [OnAlarmStopped ((alarms m ! it)
                \<lparr>status := (if repeat_mode (alarms m ! it) = kAlarmOnce then kAlarmDisabled
                             else kAlarmEnabled),
                 snooze_count := 0, next_snooze_time := 0\<rparr>)]
              else [])\<rparr>)"
proof -
  have "it < length (alarms m)"
    using assms(3) by (simp add: find_if_Some)
  then show ?thesis
    using assms by (auto simp: StopAlarm_def lock_guard_def assign_def invoke_def Let_def)
qed

lemma SnoozeAlarm_below_ceiling:
  assumes "initialized m" and "\<not> alarms_mutex m" and "find_if alarm_id (alarms m) = Some it"
    and "status (alarms m ! it) = kAlarmTriggered"
    and "snooze_count (alarms m ! it) < max_snooze_count (alarms m ! it)"
  shows "SnoozeAlarm now alarm_id m
    = Some (True,
        m\<lparr>alarms := (alarms m)
             [it := (alarms m ! it)
                \<lparr>status := kAlarmSnoozed, snooze_count := snooze_count (alarms m ! it) + 1,
                 next_snooze_time := now + snooze_minutes (alarms m ! it) * 60\<rparr>],
          calls := calls m @
             (if on_alarm_snoozed m
              then [OnAlarmSnoozed ((alarms m ! it)
                \<lparr>status := kAlarmSnoozed, snooze_count := snooze_count (alarms m ! it) + 1,
                 next_snooze_time := now + snooze_minutes (alarms m ! it) * 60\<rparr>)]
              else [])\<rparr>)"
proof -
  have "it < length (alarms m)"
    using assms(3) by (simp add: find_if_Some)
  then show ?thesis
    using assms by (auto simp: SnoozeAlarm_def lock_guard_def assign_def invoke_def Let_def)
qed

lemma SnoozeAlarm_at_ceiling:
  assumes "initialized m" and "\<not> alarms_mutex m" and "find_if alarm_id (alarms m) = Some it"
    and "status (alarms m ! it) = kAlarmTriggered"
    and "\<not> snooze_count (alarms m ! it) < max_snooze_count (alarms m ! it)"
  shows "SnoozeAlarm now alarm_id m = None"
  using assms by (simp add: SnoozeAlarm_def lock_guard_def StopAlarm_held)

section \<open>A Custom alarm without weekdays stays as it is\<close>

lemma lock_guard_elim:
  assumes "lock_guard scope m = Some (r, m')"
  obtains m2 where "\<not> alarms_mutex m" and "scope (m\<lparr>alarms_mutex := True\<rparr>) = Some (r, m2)"
    and "m' = m2\<lparr>alarms_mutex := False\<rparr>"
  using assms by (auto simp: lock_guard_def split: if_splits option.splits)

lemma never_due_inactive: "never_due a \<Longrightarrow> \<not> IsWeekdayActive a weekday"
  by (simp add: never_due_def IsWeekdayActive_def)

lemma never_due_CheckAlarms_body: "never_due a \<Longrightarrow> CheckAlarms_body clk reg k a = (a, [])"
  by (auto simp: never_due_def CheckAlarms_body_def ShouldTriggerToday_def IsWeekdayActive_def)

lemma never_due_StopAll_body: "never_due a \<Longrightarrow> StopAllActiveAlarms_body reg a = (a, [])"
  by (auto simp: never_due_def StopAllActiveAlarms_body_def)

lemma never_due_status [simp]:
  "never_due a \<Longrightarrow> never_due (a\<lparr>status := kAlarmEnabled\<rparr>)"
  "never_due a \<Longrightarrow> never_due (a\<lparr>status := kAlarmDisabled\<rparr>)"
  by (simp_all add: never_due_def)

lemma never_due_frame [simp]:
  "never_due (a\<lparr>hour := h\<rparr>) = never_due a"
  "never_due (a\<lparr>minute := mi\<rparr>) = never_due a"
  "never_due (a\<lparr>label := l\<rparr>) = never_due a"
  "never_due (a\<lparr>music_name := l\<rparr>) = never_due a"
  "never_due a \<Longrightarrow> never_due (a\<lparr>repeat_mode := kAlarmCustom\<rparr>)"
  by (simp_all add: never_due_def)

lemma never_due_not_ringing:
  "never_due a \<Longrightarrow> status a \<noteq> kAlarmTriggered \<and> status a \<noteq> kAlarmSnoozed"
  by (auto simp: never_due_def)

lemma unlock_free: "\<not> alarms_mutex m \<Longrightarrow> m\<lparr>alarms_mutex := False\<rparr> = m"
  by (cases m) simp

lemma SnoozeAlarm_cases:
  assumes "SnoozeAlarm now alarm_id m = Some (r, m')"
  shows "m' = m
       \<or> (\<exists>it. find_if alarm_id (alarms m) = Some it
              \<and> status (alarms m ! it) = kAlarmTriggered
              \<and> m' = m\<lparr>alarms := (alarms m)
                    [it := (alarms m ! it)
                       \<lparr>status := kAlarmSnoozed,
                        snooze_count := snooze_count (alarms m ! it) + 1,
                        next_snooze_time := now + snooze_minutes (alarms m ! it) * 60\<rparr>],
                  calls := calls m @
                    (if on_alarm_snoozed m
                     then [OnAlarmSnoozed ((alarms m ! it)
                       \<lparr>status := kAlarmSnoozed,
                        snooze_count := snooze_count (alarms m ! it) + 1,
                        next_snooze_time := now + snooze_minutes (alarms m ! it) * 60\<rparr>)]
                     else [])\<rparr>)"
proof (cases "initialized m")
  case False
  with assms show ?thesis by (simp add: SnoozeAlarm_def)
next
  case init: True
  with assms have free: "\<not> alarms_mutex m"
    by (auto simp: SnoozeAlarm_def lock_guard_def split: if_splits)
  show ?thesis
  proof (cases "find_if alarm_id (alarms m)")
    case None
    with assms init free show ?thesis
      by (auto simp: SnoozeAlarm_def lock_guard_def unlock_free)
  next
    case (Some it)
    show ?thesis
    proof (cases "status (alarms m ! it) = kAlarmTriggered")
      case False
      with assms init free Some show ?thesis
        by (auto simp: SnoozeAlarm_def lock_guard_def unlock_free)
    next
      case True
      show ?thesis
      proof (cases "snooze_count (alarms m ! it) < max_snooze_count (alarms m ! it)")
        case below: True
        from SnoozeAlarm_below_ceiling [OF init free Some True below, of now] assms Some True
        show ?thesis by simp
      next
        case False
        from SnoozeAlarm_at_ceiling [OF init free Some True False, of now] assms
        show ?thesis by simp
      qed
    qed
  qed
qed

lemma StopAlarm_cases:
  assumes "StopAlarm alarm_id m = Some (r, m')"
  shows "m' = m
       \<or> (\<exists>it. find_if alarm_id (alarms m) = Some it
              \<and> (status (alarms m ! it) = kAlarmTriggered \<or> status (alarms m ! it) = kAlarmSnoozed)
              \<and> m' = m\<lparr>alarms := (alarms m)
                    [it := (alarms m ! it)
                       \<lparr>status := (if repeat_mode (alarms m ! it) = kAlarmOnce
                                    then kAlarmDisabled else kAlarmEnabled),
                        snooze_count := 0, next_snooze_time := 0\<rparr>],
                  calls := calls m @
                    (if on_alarm_stopped m
                     then [OnAlarmStopped ((alarms m ! it)
                       \<lparr>status := (if repeat_mode (alarms m ! it) = kAlarmOnce
                                    then kAlarmDisabled else kAlarmEnabled),
                        snooze_count := 0, next_snooze_time := 0\<rparr>)]
                     else [])\<rparr>)"
proof (cases "initialized m")
  case False
  with assms show ?thesis by (simp add: StopAlarm_def)
next
  case init: True
  with assms have free: "\<not> alarms_mutex m"
    by (auto simp: StopAlarm_def lock_guard_def split: if_splits)
  show ?thesis
  proof (cases "find_if alarm_id (alarms m)")
    case None
    with assms init free show ?thesis
      by (auto simp: StopAlarm_def lock_guard_def unlock_free)
  next
    case (Some it)
    show ?thesis
    proof (cases "status (alarms m ! it) = kAlarmTriggered \<or> status (alarms m ! it) = kAlarmSnoozed")
      case False
      with assms init free Some show ?thesis
        by (auto simp: StopAlarm_def lock_guard_def unlock_free)
    next
      case True
      from StopAlarm_active [OF init free Some True] assms Some True
      show ?thesis by simp
    qed
  qed
qed

lemma nth_list_update_cases:
  "i < length xs \<Longrightarrow> xs[it := a] ! i = (if it = i then a else xs ! i)"
  by (cases "it = i") simp_all

lemma stored_all_frame [simp]:
  "stored_all P (store\<lparr>key_next_id := v\<rparr>) = stored_all P store"
  "stored_all P (store\<lparr>key_count := w\<rparr>) = stored_all P store"
  by (simp_all add: stored_all_def)

lemma stored_all_Save:
  "stored_all P (nvs m) \<Longrightarrow> P (from_json (to_json a)) \<Longrightarrow>
     stored_all P (nvs (SaveAlarmToStorage a m))"
  by (auto simp: stored_all_def SaveAlarmToStorage_def split: option.splits if_splits)

lemma Save_keys [simp]:
  "key_next_id (nvs (SaveAlarmToStorage a m)) = key_next_id (nvs m)"
  "key_count (nvs (SaveAlarmToStorage a m)) = key_count (nvs m)"
  by (simp_all add: SaveAlarmToStorage_def split: option.splits)

lemma fold_Save_keys [simp]:
  "key_next_id (nvs (fold SaveAlarmToStorage as m)) = key_next_id (nvs m)"
  "next_alarm_id (fold SaveAlarmToStorage as m) = next_alarm_id m"
  by (induction as arbitrary: m) simp_all

lemma stored_all_fold_Save:
  "stored_all P (nvs m) \<Longrightarrow> list_all (\<lambda>a. P (from_json (to_json a))) as \<Longrightarrow>
     stored_all P (nvs (fold SaveAlarmToStorage as m))"
  by (induction as arbitrary: m) (simp_all add: stored_all_Save)

lemma id_from_to_json [simp]: "id_field (from_json (to_json a)) = id_field a"
  by (simp add: from_json_to_json)

lemma tracked_from_to_json: "tracked n a \<Longrightarrow> tracked n (from_json (to_json a))"
  by (auto simp: tracked_def from_json_to_json never_due_def)

lemma tracked_other: "id_field a \<noteq> n \<Longrightarrow> tracked n a"
  by (simp add: tracked_def)

lemma custom_inv_mutex [simp]: "custom_inv n (m\<lparr>alarms_mutex := b\<rparr>) = custom_inv n m"
  by (simp add: custom_inv_def)

lemma custom_inv_Save:
  "custom_inv n m \<Longrightarrow> tracked n a \<Longrightarrow> custom_inv n (SaveAlarmToStorage a m)"
  by (simp add: custom_inv_def stored_all_Save tracked_from_to_json)

lemma custom_inv_Initialize:
  assumes "custom_inv n m" and "Initialize m = Some (r, m')"
  shows "custom_inv n m'"
proof (cases "initialized m")
  case True
  with assms show ?thesis by (simp add: Initialize_def)
next
  case False
  from assms(2) False have free: "\<not> alarms_mutex m"
    by (auto simp: Initialize_def LoadAlarmsFromStorage_def lock_guard_def Let_def
        split: if_splits)
  have m': "m' = m\<lparr>settings := True,
      alarms := load_loop (nvs m) (GetInt (key_count (nvs m)) 0), alarms_mutex := False,
      next_alarm_id := GetInt (key_next_id (nvs m)) 1, initialized := True\<rparr>"
    using assms(2) False free
    by (auto simp add: Initialize_def LoadAlarmsFromStorage_def lock_guard_def Let_def)
  have "tracked n a" if "a \<in> set (load_loop (nvs m) (GetInt (key_count (nvs m)) 0))" for a
    using load_loop_set [OF that] assms(1) by (auto simp: custom_inv_def stored_all_def)
  then have "list_all (tracked n) (load_loop (nvs m) (GetInt (key_count (nvs m)) 0))"
    by (simp add: list_all_iff)
  with assms(1) show ?thesis
    by (simp add: m' custom_inv_def)
qed

lemma custom_inv_AddAlarm:
  assumes "custom_inv n m" and "AddAlarm h mi mode lbl music m = Some (r, m')"
  shows "custom_inv n m'"
  using assms(2,1) unfolding AddAlarm_def
  by (cases mode)
     (auto simp: custom_inv_def GetNextAlarmId_def Let_def AlarmItem_new_def tracked_other
        GetInt_def split: if_splits elim!: lock_guard_elim intro!: stored_all_Save)

lemma lock_guard_cinv:
  assumes "lock_guard scope m = Some (r, m')" and "custom_inv n m"
    and "\<And>m2. scope (m\<lparr>alarms_mutex := True\<rparr>) = Some (r, m2) \<Longrightarrow> custom_inv n m2"
  shows "custom_inv n m'"
  using assms by (auto elim!: lock_guard_elim)

lemma custom_inv_assign:
  assumes "custom_inv n m"
    and "tracked n (alarms m ! it) \<Longrightarrow> tracked n (f (alarms m ! it))"
  shows "custom_inv n (assign it f m)"
proof (cases "it < length (alarms m)")
  case True
  with assms(1) have "tracked n (alarms m ! it)"
    by (simp add: custom_inv_def list_all_nth)
  with assms True show ?thesis
    by (simp add: custom_inv_def list_all_update)
next
  case False
  with assms(1) show ?thesis
    by (simp add: custom_inv_def list_update_beyond)
qed

lemma custom_inv_nth:
  "custom_inv n m \<Longrightarrow> it < length (alarms m) \<Longrightarrow> tracked n (alarms m ! it)"
  by (simp add: custom_inv_def list_all_nth)

lemma tracked_frame [simp]:
  "tracked n (a\<lparr>hour := h\<rparr>) = tracked n a"
  "tracked n (a\<lparr>minute := mi\<rparr>) = tracked n a"
  "tracked n (a\<lparr>label := l\<rparr>) = tracked n a"
  "tracked n (a\<lparr>music_name := l\<rparr>) = tracked n a"
  "tracked n a \<Longrightarrow> tracked n (a\<lparr>status := kAlarmEnabled\<rparr>)"
  "tracked n a \<Longrightarrow> tracked n (a\<lparr>status := kAlarmDisabled\<rparr>)"
  "tracked n a \<Longrightarrow> tracked n (a\<lparr>repeat_mode := kAlarmCustom\<rparr>)"
  by (simp_all add: tracked_def)

lemma custom_inv_EnableAlarm:
  assumes "custom_inv n m" and "EnableAlarm alarm_id enabled m = Some (r, m')"
  shows "custom_inv n m'"
  using assms(2,1) unfolding EnableAlarm_def
  by (auto simp: Let_def custom_inv_nth dest!: find_if_Some split: option.splits if_splits
        elim!: lock_guard_cinv intro!: custom_inv_Save custom_inv_assign)

lemma custom_inv_ModifyAlarm:
  assumes "custom_inv n m" and "ModifyAlarm alarm_id h mi mode lbl music m = Some (r, m')"
    and "\<not> gives_other_mode n (Call_ModifyAlarm alarm_id h mi mode lbl music)"
  shows "custom_inv n m'"
proof (cases "alarm_id = n")
  case True
  show ?thesis
  proof (cases "h < 0 \<or> h > 23 \<or> mi < 0 \<or> mi > 59")
    case True
    with assms(1,2) show ?thesis
      by (simp add: ModifyAlarm_def split: if_splits)
  next
    case False
    with assms(3) \<open>alarm_id = n\<close> have "mode = kAlarmCustom"
      by auto
    with assms(2,1) show ?thesis
      unfolding ModifyAlarm_def
      by (auto simp: Let_def custom_inv_nth dest!: find_if_Some split: option.splits if_splits
            elim!: lock_guard_cinv intro!: custom_inv_Save custom_inv_assign)
  qed
next
  case False
  have other: "tracked n (f a)" if "id_field a = alarm_id" "id_field (f a) = id_field a" for f a
    using that False by (simp add: tracked_def)
  from assms(2,1) show ?thesis
    unfolding ModifyAlarm_def
    by (cases mode)
       (auto simp: Let_def dest!: find_if_Some split: option.splits if_splits
          elim!: lock_guard_cinv intro!: custom_inv_Save custom_inv_assign other)
qed

lemma custom_inv_StopAlarm:
  assumes "custom_inv n m" and "StopAlarm alarm_id m = Some (r, m')"
  shows "custom_inv n m'"
proof -
  from StopAlarm_cases [OF assms(2)] show ?thesis
  proof
    assume "m' = m"
    with assms(1) show ?thesis by simp
  next
    assume "\<exists>it. find_if alarm_id (alarms m) = Some it
              \<and> (status (alarms m ! it) = kAlarmTriggered \<or> status (alarms m ! it) = kAlarmSnoozed)
              \<and> m' = m\<lparr>alarms := (alarms m)
                    [it := (alarms m ! it)
                       \<lparr>status := (if repeat_mode (alarms m ! it) = kAlarmOnce
                                    then kAlarmDisabled else kAlarmEnabled),
                        snooze_count := 0, next_snooze_time := 0\<rparr>],
                  calls := calls m @
                    (if on_alarm_stopped m
                     then [OnAlarmStopped ((alarms m ! it)
                       \<lparr>status := (if repeat_mode (alarms m ! it) = kAlarmOnce
                                    then kAlarmDisabled else kAlarmEnabled),
                        snooze_count := 0, next_snooze_time := 0\<rparr>)]
                     else [])\<rparr>"
    then obtain it where it: "find_if alarm_id (alarms m) = Some it"
      and st: "status (alarms m ! it) = kAlarmTriggered \<or> status (alarms m ! it) = kAlarmSnoozed"
      and m': "alarms m' = (alarms m)
                    [it := (alarms m ! it)
                       \<lparr>status := (if repeat_mode (alarms m ! it) = kAlarmOnce
                                    then kAlarmDisabled else kAlarmEnabled),
                        snooze_count := 0, next_snooze_time := 0\<rparr>]"
        "nvs m' = nvs m" "initialized m' = initialized m" "next_alarm_id m' = next_alarm_id m"
      by auto
    from it have lt: "it < length (alarms m)"
      by (simp add: find_if_Some)
    with assms(1) have "tracked n (alarms m ! it)"
      by (rule custom_inv_nth)
    with st have "id_field (alarms m ! it) \<noteq> n"
      by (auto simp: tracked_def never_due_def)
    then have "tracked n ((alarms m ! it)
                       \<lparr>status := (if repeat_mode (alarms m ! it) = kAlarmOnce
                                    then kAlarmDisabled else kAlarmEnabled),
                        snooze_count := 0, next_snooze_time := 0\<rparr>)"
      by (simp add: tracked_def)
    with assms(1) lt show ?thesis
      by (simp add: custom_inv_def m' list_all_update)
  qed
qed

lemma custom_inv_SnoozeAlarm:
  assumes "custom_inv n m" and "SnoozeAlarm now alarm_id m = Some (r, m')"
  shows "custom_inv n m'"
proof -
  from SnoozeAlarm_cases [OF assms(2)] show ?thesis
  proof
    assume "m' = m"
    with assms(1) show ?thesis by simp
  next
    assume "\<exists>it. find_if alarm_id (alarms m) = Some it
              \<and> status (alarms m ! it) = kAlarmTriggered
              \<and> m' = m\<lparr>alarms := (alarms m)
                    [it := (alarms m ! it)
                       \<lparr>status := kAlarmSnoozed,
                        snooze_count := snooze_count (alarms m ! it) + 1,
                        next_snooze_time := now + snooze_minutes (alarms m ! it) * 60\<rparr>],
                  calls := calls m @
                    (if on_alarm_snoozed m
                     then [OnAlarmSnoozed ((alarms m ! it)
                       \<lparr>status := kAlarmSnoozed,
                        snooze_count := snooze_count (alarms m ! it) + 1,
                        next_snooze_time := now + snooze_minutes (alarms m ! it) * 60\<rparr>)]
                     else [])\<rparr>"
    then obtain it where it: "find_if alarm_id (alarms m) = Some it"
      and st: "status (alarms m ! it) = kAlarmTriggered"
      and m': "alarms m' = (alarms m)
                    [it := (alarms m ! it)
                       \<lparr>status := kAlarmSnoozed,
                        snooze_count := snooze_count (alarms m ! it) + 1,
                        next_snooze_time := now + snooze_minutes (alarms m ! it) * 60\<rparr>]"
        "nvs m' = nvs m" "initialized m' = initialized m" "next_alarm_id m' = next_alarm_id m"
      by auto
    from it have lt: "it < length (alarms m)"
      by (simp add: find_if_Some)
    with assms(1) have "tracked n (alarms m ! it)"
      by (rule custom_inv_nth)
    with st have "id_field (alarms m ! it) \<noteq> n"
      by (auto simp: tracked_def never_due_def)
    then have "tracked n ((alarms m ! it)
                       \<lparr>status := kAlarmSnoozed,
                        snooze_count := snooze_count (alarms m ! it) + 1,
                        next_snooze_time := now + snooze_minutes (alarms m ! it) * 60\<rparr>)"
      by (simp add: tracked_def)
    with assms(1) lt show ?thesis
      by (simp add: custom_inv_def m' list_all_update)
  qed
qed

lemma tracked_CheckAlarms_body: "tracked n a \<Longrightarrow> tracked n (fst (CheckAlarms_body clk reg k a))"
  by (cases "id_field a = n")
     (simp_all add: tracked_def never_due_CheckAlarms_body CheckAlarms_body_id)

lemma StopAll_body_id: "id_field (fst (StopAllActiveAlarms_body reg a)) = id_field a"
  by (simp add: StopAllActiveAlarms_body_def Let_def)

lemma tracked_StopAll_body: "tracked n a \<Longrightarrow> tracked n (fst (StopAllActiveAlarms_body reg a))"
  by (cases "id_field a = n")
     (simp_all add: tracked_def never_due_StopAll_body StopAll_body_id)

lemma custom_inv_for_each:
  "custom_inv n m \<Longrightarrow> (\<And>k a. tracked n a \<Longrightarrow> tracked n (fst (body k a))) \<Longrightarrow>
     custom_inv n (for_each body m)"
  by (simp add: custom_inv_def list_all_for_each)

lemma custom_inv_CheckAlarms:
  assumes "custom_inv n m" and "CheckAlarms clk m = Some (r, m')"
  shows "custom_inv n m'"
  using assms(2,1) unfolding CheckAlarms_def
  by (auto simp: custom_inv_for_each tracked_CheckAlarms_body split: if_splits
      elim!: lock_guard_cinv)

lemma custom_inv_StopAllActiveAlarms:
  assumes "custom_inv n m" and "StopAllActiveAlarms m = Some (r, m')"
  shows "custom_inv n m'"
  using assms(2,1) unfolding StopAllActiveAlarms_def
  by (auto simp: custom_inv_for_each tracked_StopAll_body split: if_splits
      elim!: lock_guard_cinv)

lemma custom_inv_fold_Save:
  "custom_inv n m \<Longrightarrow> list_all (tracked n) as \<Longrightarrow> custom_inv n (fold SaveAlarmToStorage as m)"
proof (induction as arbitrary: m)
  case Nil
  then show ?case by simp
next
  case (Cons a as)
  from Cons.prems have "custom_inv n (SaveAlarmToStorage a m)"
    by (simp add: custom_inv_Save)
  with Cons show ?case by simp
qed

lemma custom_inv_SaveAlarmsToStorage:
  assumes "custom_inv n m" and "SaveAlarmsToStorage m = Some (r, m')"
  shows "custom_inv n m'"
  using assms(2,1) unfolding SaveAlarmsToStorage_def
  by (auto simp: Let_def split: if_splits elim!: lock_guard_cinv
      intro!: custom_inv_fold_Save) (simp_all add: custom_inv_def)

lemma custom_inv_Cleanup:
  assumes "custom_inv n m" and "Cleanup m = Some (r, m')"
  shows "custom_inv n m'"
proof (cases "initialized m")
  case False
  with assms show ?thesis by (simp add: Cleanup_def)
next
  case True
  from assms(2) True obtain m1 m2 m3 where
    1: "StopAllActiveAlarms m = Some ((), m1)" and
    2: "SaveAlarmsToStorage m1 = Some ((), m2)" and
    3: "lock_guard (\<lambda>m. Some ((), m\<lparr>alarms := []\<rparr>)) m2 = Some ((), m3)" and
    m': "m' = m3\<lparr>settings := False, initialized := False\<rparr>"
    by (auto simp: Cleanup_def split: Option.bind_splits)
  have "custom_inv n m2"
    using custom_inv_SaveAlarmsToStorage [OF custom_inv_StopAllActiveAlarms [OF assms(1) 1] 2] .
  with 3 have "custom_inv n m3"
    by (auto simp: custom_inv_def elim!: lock_guard_elim)
  then show ?thesis
    by (simp add: m' custom_inv_def)
qed

lemma list_all_remove:
  "list_all P xs \<Longrightarrow> list_all P (take it xs)"
  "list_all P xs \<Longrightarrow> list_all P (drop it xs)"
  by (auto simp: list_all_iff dest: in_set_takeD in_set_dropD)

lemma custom_inv_RemoveAlarm:
  assumes "custom_inv n m" and "RemoveAlarm alarm_id m = Some (r, m')"
  shows "custom_inv n m'"
proof (cases "initialized m")
  case False
  with assms show ?thesis by (simp add: RemoveAlarm_def)
next
  case True
  show ?thesis
  proof (cases "find_if alarm_id (alarms m)")
    case None
    with assms True show ?thesis
      by (auto simp: RemoveAlarm_def elim!: lock_guard_elim)
  next
    case (Some it)
    let ?m1 = "m\<lparr>alarms_mutex := True, alarms := take it (alarms m) @ drop (Suc it) (alarms m)\<rparr>"
    from assms(2) True Some obtain m2 where
      "SaveAlarmsToStorage ?m1 = Some ((), m2)" and m': "m' = m2\<lparr>alarms_mutex := False\<rparr>"
      by (auto simp: RemoveAlarm_def RemoveAlarmFromStorage_def split: Option.bind_splits
          elim!: lock_guard_elim)
    then have "m2 = ?m1"
      by (auto simp: SaveAlarmsToStorage_def lock_guard_def split: if_splits)
    with assms(1) show ?thesis
      by (simp add: m' custom_inv_def list_all_remove)
  qed
qed

lemma custom_inv_setters:
  "custom_inv n m \<Longrightarrow> custom_inv n (SetAlarmTriggeredCallback cb m)"
  "custom_inv n m \<Longrightarrow> custom_inv n (SetAlarmSnoozeCallback cb m)"
  "custom_inv n m \<Longrightarrow> custom_inv n (SetAlarmStopCallback cb m)"
  "custom_inv n m \<Longrightarrow> custom_inv n (SetDefaultSnoozeMinutes minutes m)"
  "custom_inv n m \<Longrightarrow> custom_inv n (SetDefaultMaxSnoozeCount k m)"
  by (simp_all add: custom_inv_def SetAlarmTriggeredCallback_def
      SetAlarmSnoozeCallback_def SetAlarmStopCallback_def SetDefaultSnoozeMinutes_def
      SetDefaultMaxSnoozeCount_def)

lemma custom_inv_Reboot: "custom_inv n m \<Longrightarrow> custom_inv n (AlarmManager_new (nvs m))"
  by (simp add: custom_inv_def AlarmManager_new_def)

lemma custom_inv_exec:
  assumes "custom_inv n m" and "exec c m = Some m'" and "\<not> gives_other_mode n c"
  shows "custom_inv n m'"
proof (cases c)
  case (Call_ModifyAlarm alarm_id h mi mode lbl music)
  with assms show ?thesis
    by (auto dest: custom_inv_ModifyAlarm)
qed (use assms in \<open>auto simp: custom_inv_setters custom_inv_Reboot
        dest: custom_inv_Initialize custom_inv_Cleanup custom_inv_AddAlarm custom_inv_RemoveAlarm
          custom_inv_EnableAlarm custom_inv_SnoozeAlarm custom_inv_StopAlarm
          custom_inv_StopAllActiveAlarms custom_inv_CheckAlarms\<close>)

lemma custom_inv_run:
  "custom_inv n m \<Longrightarrow> run cs m = Some m' \<Longrightarrow> \<forall>c \<in> set cs. \<not> gives_other_mode n c \<Longrightarrow>
     custom_inv n m'"
  by (induction cs arbitrary: m) (auto split: option.splits dest: custom_inv_exec)

lemma fresh_inv_mutex [simp]: "fresh_inv (m\<lparr>alarms_mutex := b\<rparr>) = fresh_inv m"
  by (simp add: fresh_inv_def)

lemma lock_guard_finv:
  assumes "lock_guard scope m = Some (r, m')" and "fresh_inv m"
    and "\<And>m2. scope (m\<lparr>alarms_mutex := True\<rparr>) = Some (r, m2) \<Longrightarrow> fresh_inv m2"
  shows "fresh_inv m'"
  using assms by (auto elim!: lock_guard_elim)

lemma fresh_inv_Save:
  "fresh_inv m \<Longrightarrow> id_field a < GetInt (key_next_id (nvs m)) 1 \<Longrightarrow>
     fresh_inv (SaveAlarmToStorage a m)"
  by (simp add: fresh_inv_def stored_all_Save)

lemma fresh_inv_nth:
  "fresh_inv m \<Longrightarrow> it < length (alarms m) \<Longrightarrow>
     id_field (alarms m ! it) < GetInt (key_next_id (nvs m)) 1"
  by (simp add: fresh_inv_def list_all_length)

lemma fresh_inv_assign:
  assumes "fresh_inv m" and "id_field (f (alarms m ! it)) = id_field (alarms m ! it)"
  shows "fresh_inv (assign it f m)"
proof (cases "it < length (alarms m)")
  case True
  with assms(1) have "id_field (alarms m ! it) < GetInt (key_next_id (nvs m)) 1"
    by (rule fresh_inv_nth)
  with assms True show ?thesis
    by (simp add: fresh_inv_def list_all_update)
next
  case False
  with assms(1) show ?thesis
    by (simp add: fresh_inv_def list_update_beyond)
qed

lemma fresh_inv_Initialize:
  assumes "fresh_inv m" and "Initialize m = Some (r, m')"
  shows "fresh_inv m'"
proof (cases "initialized m")
  case True
  with assms show ?thesis by (simp add: Initialize_def)
next
  case False
  from assms(2) False have free: "\<not> alarms_mutex m"
    by (auto simp: Initialize_def LoadAlarmsFromStorage_def lock_guard_def Let_def
        split: if_splits)
  have m': "m' = m\<lparr>settings := True,
      alarms := load_loop (nvs m) (GetInt (key_count (nvs m)) 0), alarms_mutex := False,
      next_alarm_id := GetInt (key_next_id (nvs m)) 1, initialized := True\<rparr>"
    using assms(2) False free
    by (auto simp add: Initialize_def LoadAlarmsFromStorage_def lock_guard_def Let_def)
  have "id_field a < GetInt (key_next_id (nvs m)) 1"
    if "a \<in> set (load_loop (nvs m) (GetInt (key_count (nvs m)) 0))" for a
    using load_loop_set [OF that] assms(1) by (auto simp: fresh_inv_def stored_all_def)
  then have "list_all (\<lambda>a. id_field a < GetInt (key_next_id (nvs m)) 1)
      (load_loop (nvs m) (GetInt (key_count (nvs m)) 0))"
    by (simp add: list_all_iff)
  with assms(1) show ?thesis
    by (simp add: m' fresh_inv_def)
qed

lemma list_all_below: "list_all (\<lambda>a. id_field a < b) xs \<Longrightarrow> b \<le> c \<Longrightarrow> list_all (\<lambda>a. id_field a < c) xs"
  for b c :: int
  by (auto simp: list_all_iff)

lemma stored_all_below:
  "stored_all (\<lambda>a. id_field a < b) store \<Longrightarrow> b \<le> c \<Longrightarrow> stored_all (\<lambda>a. id_field a < c) store"
  for b c :: int
  by (fastforce simp: stored_all_def)

lemma AddAlarm_result:
  assumes "AddAlarm h mi mode lbl music m = Some (r, m')"
  shows "m' = m
     \<or> (initialized m \<and> settings m \<and> 0 \<le> h \<and> h \<le> 23 \<and> 0 \<le> mi \<and> mi \<le> 59
        \<and> r = next_alarm_id m
        \<and> (\<exists>a. id_field a = next_alarm_id m \<and> repeat_mode a = mode
              \<and> weekdays_mask a = (case mode of kAlarmDaily \<Rightarrow> 0b1111111
                                  | kAlarmWeekdays \<Rightarrow> 0b0111110
                                  | kAlarmWeekends \<Rightarrow> 0b1000001 | _ \<Rightarrow> 0)
              \<and> status a = kAlarmEnabled
              \<and> alarms m' = alarms m @ [a]
              \<and> (\<forall>P. stored_all P (nvs m) \<longrightarrow> P (from_json (to_json a)) \<longrightarrow>
                    stored_all P (nvs m')))
        \<and> key_next_id (nvs m') = Some (next_alarm_id m + 1)
        \<and> initialized m' \<and> settings m' \<and> next_alarm_id m' = next_alarm_id m + 1)"
  using assms unfolding AddAlarm_def
  by (cases mode)
     (auto simp: GetNextAlarmId_def Let_def AlarmItem_new_def
        split: if_splits elim!: lock_guard_elim intro!: stored_all_Save)


lemma fresh_inv_AddAlarm:
  assumes "fresh_inv m" and "AddAlarm h mi mode lbl music m = Some (r, m')"
  shows "fresh_inv m'"
proof -
  from AddAlarm_result [OF assms(2)] show ?thesis
  proof
    assume "m' = m"
    with assms(1) show ?thesis by simp
  next
    assume "initialized m \<and> settings m \<and> 0 \<le> h \<and> h \<le> 23 \<and> 0 \<le> mi \<and> mi \<le> 59
        \<and> r = next_alarm_id m
        \<and> (\<exists>a. id_field a = next_alarm_id m \<and> repeat_mode a = mode
              \<and> weekdays_mask a = (case mode of kAlarmDaily \<Rightarrow> 0b1111111
                                  | kAlarmWeekdays \<Rightarrow> 0b0111110
                                  | kAlarmWeekends \<Rightarrow> 0b1000001 | _ \<Rightarrow> 0)
              \<and> status a = kAlarmEnabled
              \<and> alarms m' = alarms m @ [a]
              \<and> (\<forall>P. stored_all P (nvs m) \<longrightarrow> P (from_json (to_json a)) \<longrightarrow>
                    stored_all P (nvs m')))
        \<and> key_next_id (nvs m') = Some (next_alarm_id m + 1)
        \<and> initialized m' \<and> settings m' \<and> next_alarm_id m' = next_alarm_id m + 1"
    then obtain a where init: "initialized m" and a: "id_field a = next_alarm_id m"
      and as: "alarms m' = alarms m @ [a]"
      and st: "\<And>P. stored_all P (nvs m) \<Longrightarrow> P (from_json (to_json a)) \<Longrightarrow> stored_all P (nvs m')"
      and k: "key_next_id (nvs m') = Some (next_alarm_id m + 1)"
      and n: "next_alarm_id m' = next_alarm_id m + 1"
      by blast
    let ?b = "GetInt (key_next_id (nvs m)) 1"
    let ?c = "next_alarm_id m + 1"
    from assms(1) init have le: "?b \<le> ?c"
      and l: "list_all (\<lambda>a. id_field a < ?b) (alarms m)"
      and s: "stored_all (\<lambda>a. id_field a < ?b) (nvs m)"
      by (simp_all add: fresh_inv_def)
    have "list_all (\<lambda>a. id_field a < ?c) (alarms m')"
      using list_all_below [OF l le] a by (simp add: as)
    moreover have "stored_all (\<lambda>a. id_field a < ?c) (nvs m')"
      using stored_all_below [OF s le] a by (intro st) simp_all
    ultimately show ?thesis
      by (simp add: fresh_inv_def k n GetInt_def)
  qed
qed

lemma fresh_inv_EnableAlarm:
  assumes "fresh_inv m" and "EnableAlarm alarm_id enabled m = Some (r, m')"
  shows "fresh_inv m'"
  using assms(2,1) unfolding EnableAlarm_def
  by (auto simp: Let_def fresh_inv_nth dest!: find_if_Some split: option.splits if_splits
        elim!: lock_guard_finv intro!: fresh_inv_Save fresh_inv_assign)

lemma fresh_inv_ModifyAlarm:
  assumes "fresh_inv m" and "ModifyAlarm alarm_id h mi mode lbl music m = Some (r, m')"
  shows "fresh_inv m'"
  using assms(2,1) unfolding ModifyAlarm_def
  by (cases mode)
     (auto simp: Let_def fresh_inv_nth dest!: find_if_Some split: option.splits if_splits
        elim!: lock_guard_finv intro!: fresh_inv_Save fresh_inv_assign)

lemma fresh_inv_update:
  assumes "fresh_inv m" and "alarms m' = (alarms m)[it := a]"
    and "it < length (alarms m) \<Longrightarrow> id_field a = id_field (alarms m ! it)"
    and "nvs m' = nvs m" and "initialized m' = initialized m"
    and "next_alarm_id m' = next_alarm_id m"
  shows "fresh_inv m'"
proof (cases "it < length (alarms m)")
  case True
  with assms(1) have "id_field (alarms m ! it) < GetInt (key_next_id (nvs m)) 1"
    by (rule fresh_inv_nth)
  with assms True show ?thesis
    by (simp add: fresh_inv_def list_all_update)
next
  case False
  with assms show ?thesis
    by (simp add: fresh_inv_def list_update_beyond)
qed

lemma fresh_inv_StopAlarm:
  assumes "fresh_inv m" and "StopAlarm alarm_id m = Some (r, m')"
  shows "fresh_inv m'"
  using StopAlarm_cases [OF assms(2)] assms(1)
  by (auto intro!: fresh_inv_update [of m])

lemma fresh_inv_SnoozeAlarm:
  assumes "fresh_inv m" and "SnoozeAlarm now alarm_id m = Some (r, m')"
  shows "fresh_inv m'"
  using SnoozeAlarm_cases [OF assms(2)] assms(1)
  by (auto intro!: fresh_inv_update [of m])

lemma fresh_inv_for_each:
  "fresh_inv m \<Longrightarrow> (\<And>k a. id_field (fst (body k a)) = id_field a) \<Longrightarrow>
     fresh_inv (for_each body m)"
  by (simp add: fresh_inv_def list_all_length for_each_nth)

lemma fresh_inv_CheckAlarms:
  assumes "fresh_inv m" and "CheckAlarms clk m = Some (r, m')"
  shows "fresh_inv m'"
  using assms(2,1) unfolding CheckAlarms_def
  by (auto simp: fresh_inv_for_each CheckAlarms_body_id split: if_splits
      elim!: lock_guard_finv)

lemma fresh_inv_StopAllActiveAlarms:
  assumes "fresh_inv m" and "StopAllActiveAlarms m = Some (r, m')"
  shows "fresh_inv m'"
  using assms(2,1) unfolding StopAllActiveAlarms_def
  by (auto simp: fresh_inv_for_each StopAll_body_id split: if_splits
      elim!: lock_guard_finv)

lemma fresh_inv_fold_Save:
  "fresh_inv m \<Longrightarrow> list_all (\<lambda>a. id_field a < GetInt (key_next_id (nvs m)) 1) as \<Longrightarrow>
     fresh_inv (fold SaveAlarmToStorage as m)"
proof (induction as arbitrary: m)
  case Nil
  then show ?case by simp
next
  case (Cons a as)
  from Cons.prems have "fresh_inv (SaveAlarmToStorage a m)"
    by (simp add: fresh_inv_Save)
  with Cons show ?case by simp
qed

lemma fresh_inv_SaveAlarmsToStorage:
  assumes "fresh_inv m" and "SaveAlarmsToStorage m = Some (r, m')"
  shows "fresh_inv m'"
  using assms(2,1) unfolding SaveAlarmsToStorage_def
  by (auto simp: Let_def split: if_splits elim!: lock_guard_finv
      intro!: fresh_inv_fold_Save) (simp_all add: fresh_inv_def)

lemma fresh_inv_Cleanup:
  assumes "fresh_inv m" and "Cleanup m = Some (r, m')"
  shows "fresh_inv m'"
proof (cases "initialized m")
  case False
  with assms show ?thesis by (simp add: Cleanup_def)
next
  case True
  from assms(2) True obtain m1 m2 m3 where
    1: "StopAllActiveAlarms m = Some ((), m1)" and
    2: "SaveAlarmsToStorage m1 = Some ((), m2)" and
    3: "lock_guard (\<lambda>m. Some ((), m\<lparr>alarms := []\<rparr>)) m2 = Some ((), m3)" and
    m': "m' = m3\<lparr>settings := False, initialized := False\<rparr>"
    by (auto simp: Cleanup_def split: Option.bind_splits)
  have "fresh_inv m2"
    using fresh_inv_SaveAlarmsToStorage [OF fresh_inv_StopAllActiveAlarms [OF assms(1) 1] 2] .
  with 3 have "fresh_inv m3"
    by (auto simp: fresh_inv_def elim!: lock_guard_elim)
  then show ?thesis
    by (simp add: m' fresh_inv_def)
qed

lemma fresh_inv_RemoveAlarm:
  assumes "fresh_inv m" and "RemoveAlarm alarm_id m = Some (r, m')"
  shows "fresh_inv m'"
proof (cases "initialized m")
  case False
  with assms show ?thesis by (simp add: RemoveAlarm_def)
next
  case True
  show ?thesis
  proof (cases "find_if alarm_id (alarms m)")
    case None
    with assms True show ?thesis
      by (auto simp: RemoveAlarm_def elim!: lock_guard_elim)
  next
    case (Some it)
    let ?m1 = "m\<lparr>alarms_mutex := True, alarms := take it (alarms m) @ drop (Suc it) (alarms m)\<rparr>"
    from assms(2) True Some obtain m2 where
      "SaveAlarmsToStorage ?m1 = Some ((), m2)" and m': "m' = m2\<lparr>alarms_mutex := False\<rparr>"
      by (auto simp: RemoveAlarm_def RemoveAlarmFromStorage_def split: Option.bind_splits
          elim!: lock_guard_elim)
    then have "m2 = ?m1"
      by (auto simp: SaveAlarmsToStorage_def lock_guard_def split: if_splits)
    with assms(1) show ?thesis
      by (simp add: m' fresh_inv_def list_all_remove)
  qed
qed

lemma fresh_inv_setters:
  "fresh_inv m \<Longrightarrow> fresh_inv (SetAlarmTriggeredCallback cb m)"
  "fresh_inv m \<Longrightarrow> fresh_inv (SetAlarmSnoozeCallback cb m)"
  "fresh_inv m \<Longrightarrow> fresh_inv (SetAlarmStopCallback cb m)"
  "fresh_inv m \<Longrightarrow> fresh_inv (SetDefaultSnoozeMinutes minutes m)"
  "fresh_inv m \<Longrightarrow> fresh_inv (SetDefaultMaxSnoozeCount k m)"
  by (simp_all add: fresh_inv_def SetAlarmTriggeredCallback_def
      SetAlarmSnoozeCallback_def SetAlarmStopCallback_def SetDefaultSnoozeMinutes_def
      SetDefaultMaxSnoozeCount_def)

lemma fresh_inv_Reboot: "fresh_inv m \<Longrightarrow> fresh_inv (AlarmManager_new (nvs m))"
  by (simp add: fresh_inv_def AlarmManager_new_def)

lemma fresh_inv_new: "fresh_inv (AlarmManager_new Settings_empty)"
  by (simp add: fresh_inv_def AlarmManager_new_def Settings_empty_def stored_all_def)

lemma fresh_inv_exec: "fresh_inv m \<Longrightarrow> exec c m = Some m' \<Longrightarrow> fresh_inv m'"
  by (cases c)
     (auto simp: fresh_inv_setters fresh_inv_Reboot
        dest: fresh_inv_Initialize fresh_inv_Cleanup fresh_inv_AddAlarm fresh_inv_RemoveAlarm
          fresh_inv_EnableAlarm fresh_inv_ModifyAlarm fresh_inv_SnoozeAlarm fresh_inv_StopAlarm
          fresh_inv_StopAllActiveAlarms fresh_inv_CheckAlarms)

lemma fresh_inv_run: "fresh_inv m \<Longrightarrow> run cs m = Some m' \<Longrightarrow> fresh_inv m'"
  by (induction cs arbitrary: m) (auto split: option.splits dest: fresh_inv_exec)

lemma reachable_fresh: "run cs (AlarmManager_new Settings_empty) = Some m \<Longrightarrow> fresh_inv m"
  using fresh_inv_new by (rule fresh_inv_run)

lemma custom_inv_created:
  assumes "fresh_inv m" and "initialized m"
    and "0 \<le> h" and "h \<le> 23" and "0 \<le> mi" and "mi \<le> 59"
    and "AddAlarm h mi kAlarmCustom lbl music m = Some (new_id, m1)"
  shows "custom_inv new_id m1 \<and> new_id = next_alarm_id m
       \<and> length (alarms m1) = Suc (length (alarms m))
       \<and> id_field (last (alarms m1)) = new_id \<and> never_due (last (alarms m1))
       \<and> initialized m1 \<and> settings m1"
proof -
  from assms(2-7) have "next_alarm_id m1 = next_alarm_id m + 1"
    by (auto simp: AddAlarm_def GetNextAlarmId_def Let_def split: if_splits
        elim!: lock_guard_elim)
  then have changed: "m1 \<noteq> m"
    by auto
  with AddAlarm_result [OF assms(7)] obtain a where
    r: "new_id = next_alarm_id m" and a: "id_field a = next_alarm_id m"
      "repeat_mode a = kAlarmCustom" "weekdays_mask a = 0" "status a = kAlarmEnabled"
    and as: "alarms m1 = alarms m @ [a]"
    and st: "\<And>P. stored_all P (nvs m) \<Longrightarrow> P (from_json (to_json a)) \<Longrightarrow> stored_all P (nvs m1)"
    and k: "key_next_id (nvs m1) = Some (next_alarm_id m + 1)"
    and i: "initialized m1" "settings m1" and n: "next_alarm_id m1 = next_alarm_id m + 1"
    by auto
  let ?b = "GetInt (key_next_id (nvs m)) 1"
  from assms(1,2) have le: "?b \<le> new_id"
    and l: "list_all (\<lambda>a. id_field a < ?b) (alarms m)"
    and s: "stored_all (\<lambda>a. id_field a < ?b) (nvs m)"
    by (simp_all add: fresh_inv_def r)
  have due: "never_due a"
    using a by (simp add: never_due_def)
  have "list_all (tracked new_id) (alarms m)"
    using l le by (auto simp: list_all_iff tracked_def)
  then have 1: "list_all (tracked new_id) (alarms m1)"
    using due by (simp add: as tracked_def)
  have "stored_all (tracked new_id) (nvs m)"
    using s le by (fastforce simp: stored_all_def tracked_def)
  then have 2: "stored_all (tracked new_id) (nvs m1)"
    using due by (intro st tracked_from_to_json) (simp_all add: tracked_def)
  from 1 2 have "custom_inv new_id m1"
    by (simp add: custom_inv_def k n r GetInt_def)
  with r a due i show ?thesis
    by (simp add: as)
qed

lemma stays_exec:
  assumes "exec c m = Some m'" and "\<not> drops_alarms c"
    and "initialized m" and "settings m" and "i < length (alarms m)"
  shows "initialized m' \<and> settings m' \<and> i < length (alarms m')
    \<and> id_field (alarms m' ! i) = id_field (alarms m ! i)"
proof (cases c)
  case Call_Initialize
  with assms show ?thesis
    by (simp add: Initialize_def)
next
  case (Call_AddAlarm h mi mode lbl music)
  with assms show ?thesis
    by (cases mode)
       (auto simp: AddAlarm_def GetNextAlarmId_def Let_def nth_append
          split: if_splits elim!: lock_guard_elim)
next
  case (Call_RemoveAlarm alarm_id)
  with assms show ?thesis
    by (auto simp: RemoveAlarm_def RemoveAlarmFromStorage_def SaveAlarmsToStorage_held
        split: if_splits option.splits elim!: lock_guard_elim)
next
  case (Call_ModifyAlarm alarm_id h mi mode lbl music)
  with assms show ?thesis
    by (cases mode)
       (auto simp: ModifyAlarm_def Let_def nth_list_update_cases
        split: if_splits option.splits elim!: lock_guard_elim)
next
  case (Call_EnableAlarm alarm_id enabled)
  with assms show ?thesis
    by (auto simp: EnableAlarm_def Let_def nth_list_update_cases
        split: if_splits option.splits elim!: lock_guard_elim)
next
  case (Call_SnoozeAlarm now alarm_id)
  with assms(1) obtain r where "SnoozeAlarm now alarm_id m = Some (r, m')"
    by auto
  from SnoozeAlarm_cases [OF this] assms(3-5)
  show ?thesis
    by (auto simp: nth_list_update_cases)
next
  case (Call_StopAlarm alarm_id)
  with assms(1) obtain r where "StopAlarm alarm_id m = Some (r, m')"
    by auto
  from StopAlarm_cases [OF this] assms(3-5)
  show ?thesis
    by (auto simp: nth_list_update_cases)
next
  case Call_StopAllActiveAlarms
  with assms show ?thesis
    by (auto simp: StopAllActiveAlarms_def for_each_nth StopAll_body_id
        split: if_splits elim!: lock_guard_elim)
next
  case (Call_CheckAlarms clk)
  with assms show ?thesis
    by (auto simp: CheckAlarms_def for_each_nth CheckAlarms_body_id
        split: if_splits elim!: lock_guard_elim)
qed (use assms in \<open>auto simp: SetAlarmTriggeredCallback_def SetAlarmSnoozeCallback_def
      SetAlarmStopCallback_def SetDefaultSnoozeMinutes_def SetDefaultMaxSnoozeCount_def\<close>)

lemma stays_run:
  assumes "run cs m = Some m'" and "\<forall>c \<in> set cs. \<not> drops_alarms c"
    and "initialized m" and "settings m" and "i < length (alarms m)"
  shows "i < length (alarms m') \<and> id_field (alarms m' ! i) = id_field (alarms m ! i)"
  using assms
proof (induction cs arbitrary: m)
  case Nil
  then show ?case by simp
next
  case (Cons c cs)
  from Cons.prems(1) obtain m1 where 1: "exec c m = Some m1" and 2: "run cs m1 = Some m'"
    by (auto split: option.splits)
  from stays_exec [OF 1 _ Cons.prems(3-5)] Cons.prems(2)
  have "initialized m1 \<and> settings m1 \<and> i < length (alarms m1)
      \<and> id_field (alarms m1 ! i) = id_field (alarms m ! i)"
    by simp
  with Cons.IH [OF 2] Cons.prems(2) show ?case
    by simp
qed

section \<open>The search for the next alarm\<close>

lemma day_offset_loop_spec:
  "day_offset_loop a ct wd d =
     (case filter (\<lambda>offset.
               \<not> (offset = 0 \<and> hour a * 60 + minute a \<le> ct)
               \<and> \<not> (offset > 0 \<and> repeat_mode a = kAlarmOnce)
               \<and> IsWeekdayActive a ((wd + offset) mod 7)) [d ..< 7] of
        [] \<Rightarrow> None
      | offset # _ \<Rightarrow> Some (int offset * 1440 + (hour a * 60 + minute a) - ct))"
proof (induction a ct wd d rule: day_offset_loop.induct)
  case (1 alarm current_time current_weekday day_offset)
  show ?case
  proof (cases "day_offset < 7")
    case False
    then show ?thesis
      by (subst day_offset_loop.simps) simp
  next
    case True
    then have upt: "[day_offset ..< 7] = day_offset # [day_offset + 1 ..< 7]"
      by (simp add: upt_conv_Cons)
    show ?thesis
      using True "1.IH"
      by (subst day_offset_loop.simps) (auto simp: upt Let_def simp del: upt_Suc)
  qed
qed

lemma day_offset_loop_distance:
  "day_offset_loop a ct wd 0 = spec_distance a ct wd"
  by (simp only: day_offset_loop_spec spec_distance_def spec_offsets_def spec_weekday_active_def
      IsWeekdayActive_bit)


lemma next_alarm_step_candidates:
  "fold (next_alarm_step ct wd) as acc
     = fold (\<lambda>c acc. if snd c < snd acc then (Some (fst c), snd c) else acc)
         (spec_candidates as ct wd) acc"
proof (induction as arbitrary: acc)
  case Nil
  then show ?case by (simp add: spec_candidates_def)
next
  case (Cons a as)
  let ?own = "if status a = kAlarmEnabled
         then (case spec_distance a ct wd of None \<Rightarrow> [] | Some d \<Rightarrow> [(a, d)]) else []"
  have "spec_candidates (a # as) ct wd = ?own @ spec_candidates as ct wd"
    by (simp add: spec_candidates_def)
  moreover have "next_alarm_step ct wd a acc
      = fold (\<lambda>c acc. if snd c < snd acc then (Some (fst c), snd c) else acc) ?own acc"
    by (simp add: next_alarm_step_def day_offset_loop_distance split: option.splits)
  ultimately show ?case
    using Cons.IH by simp
qed

lemma min_list_Cons:
  "cs \<noteq> [] \<Longrightarrow> min_list (x # cs) = min x (min_list cs)"
  by (cases cs) simp_all

lemma fold_keep_less:
  "cs \<noteq> [] \<Longrightarrow>
     fold (\<lambda>c acc. if snd c < snd acc then (Some (fst c), snd c) else acc) cs (b, mn :: int)
       = (if min_list (map snd cs) < mn
          then (map_option fst (List.find (\<lambda>c. snd c = min_list (map snd cs)) cs),
                min_list (map snd cs))
          else (b, mn))"
proof (induction cs arbitrary: b mn)
  case Nil
  then show ?case by simp
next
  case (Cons c cs)
  show ?case
  proof (cases "cs = []")
    case True
    then show ?thesis by simp
  next
    case False
    let ?rest = "min_list (map snd cs)"
    have mn: "min_list (map snd (c # cs)) = min (snd c) ?rest"
      using False min_list_Cons [of "map snd cs" "snd c"] by simp
    note IH = Cons.IH [OF False]
    show ?thesis
    proof (cases "snd c \<le> ?rest")
      case le: True
      then have m: "min_list (map snd (c # cs)) = snd c"
        unfolding mn by (rule min_absorb1)
      have f: "List.find (\<lambda>x. snd x = min_list (map snd (c # cs))) (c # cs) = Some c"
        unfolding m by simp
      show ?thesis
        unfolding f m using le by (auto simp: IH)
    next
      case gt: False
      then have m: "min_list (map snd (c # cs)) = ?rest"
        unfolding mn by (simp only: min_def if_False)
      have f: "List.find (\<lambda>x. snd x = min_list (map snd (c # cs))) (c # cs)
          = List.find (\<lambda>x. snd x = ?rest) cs"
        unfolding m using gt by simp
      show ?thesis
        unfolding f m using gt by (auto simp: IH)
    qed
  qed
qed


lemma spec_distance_bound:
  assumes "0 \<le> hour a" and "hour a \<le> 23" and "0 \<le> minute a" and "minute a \<le> 59"
    and "0 \<le> ct" and "spec_distance a ct wd = Some d"
  shows "d < 24 * 60 * 7"
proof -
  from assms(6) obtain offset rest where
    o: "spec_offsets a ct wd = offset # rest" and d: "d = int offset * 1440 + (hour a * 60 + minute a) - ct"
    by (auto simp: spec_distance_def split: list.splits)
  have "offset \<in> set (spec_offsets a ct wd)"
    by (simp add: o)
  then have "offset < 7"
    by (simp add: spec_offsets_def)
  with assms(1-5) show ?thesis
    unfolding d by simp
qed

lemma spec_candidates_bound:
  assumes "\<forall>a \<in> set as. 0 \<le> hour a \<and> hour a \<le> 23 \<and> 0 \<le> minute a \<and> minute a \<le> 59"
    and "0 \<le> ct" and "c \<in> set (spec_candidates as ct wd)"
  shows "snd c < 24 * 60 * 7"
proof -
  from assms(3) obtain a d where "a \<in> set as" and "spec_distance a ct wd = Some d" and "c = (a, d)"
    by (auto simp: spec_candidates_def split: if_splits option.splits)
  with assms(1,2) spec_distance_bound [of a ct wd d] show ?thesis
    by simp
qed

lemma min_list_mem: "xs \<noteq> [] \<Longrightarrow> min_list xs \<in> set (xs :: int list)"
  by (simp add: min_list_Min)

lemma next_alarm_search_spec:
  assumes "\<forall>a \<in> set as. 0 \<le> hour a \<and> hour a \<le> 23 \<and> 0 \<le> minute a \<and> minute a \<le> 59"
    and "0 \<le> ct"
  shows "next_alarm_search ct wd as
       = (case spec_next_alarm as ct wd of
            None \<Rightarrow> (None, 24 * 60 * 7) | Some (a, d) \<Rightarrow> (Some a, d))"
proof (cases "spec_candidates as ct wd = []")
  case True
  then show ?thesis
    by (simp add: next_alarm_search_def next_alarm_step_candidates spec_next_alarm_def)
next
  case False
  let ?cs = "spec_candidates as ct wd"
  let ?min = "min_list (map snd ?cs)"
  from False have "?min \<in> set (map snd ?cs)"
    by (intro min_list_mem) simp
  then obtain c where c: "c \<in> set ?cs" and m: "snd c = ?min"
    by auto
  from spec_candidates_bound [OF assms c] m have less: "?min < 24 * 60 * 7"
    by simp
  have "List.find (\<lambda>c. snd c = ?min) ?cs \<noteq> None"
    using c m unfolding find_None_iff by blast
  then obtain c' where f: "List.find (\<lambda>c. snd c = ?min) ?cs = Some c'"
    by blast
  then have m': "snd c' = ?min"
    by (auto simp: find_Some_iff)
  have "next_alarm_search ct wd as = (Some (fst c'), ?min)"
    unfolding next_alarm_search_def next_alarm_step_candidates
    using fold_keep_less [OF False, of None "24 * 60 * 7"] less f by simp
  moreover have "spec_next_alarm as ct wd = Some c'"
    using False f by (simp add: spec_next_alarm_def)
  ultimately show ?thesis
    using m' by (cases c') simp
qed

lemma spec_distance_positive:
  assumes "0 \<le> hour a" and "0 \<le> minute a" and "ct < 1440"
    and "spec_distance a ct wd = Some d"
  shows "0 < d"
proof -
  from assms(4) obtain offset rest where
    o: "spec_offsets a ct wd = offset # rest" and d: "d = int offset * 1440 + (hour a * 60 + minute a) - ct"
    by (auto simp: spec_distance_def split: list.splits)
  have "offset \<in> set (spec_offsets a ct wd)"
    by (simp add: o)
  then have "offset = 0 \<longrightarrow> ct < hour a * 60 + minute a"
    by (auto simp: spec_offsets_def)
  with assms(1-3) show ?thesis
    unfolding d by (cases "offset = 0") auto
qed

lemma spec_next_alarm_candidate:
  assumes "spec_next_alarm as ct wd = Some (a, d)"
  shows "a \<in> set as \<and> spec_distance a ct wd = Some d"
proof -
  from assms have "(a, d) \<in> set (spec_candidates as ct wd)"
    by (auto simp: spec_next_alarm_def Let_def find_Some_iff split: if_splits)
  then show ?thesis
    by (auto simp: spec_candidates_def split: if_splits option.splits)
qed

lemma char_of_digit: "n < 10 \<Longrightarrow> char_of (48 + n) = spec_digit (int n)" for n :: nat
proof -
  assume "n < 10"
  then have "n \<in> {0, 1, 2, 3, 4, 5, 6, 7, 8, 9}"
    by auto
  then show ?thesis
    by (auto simp: spec_digit_def char_of_def bit_Suc_0_iff)
qed

lemma digits_small: "n < 10 \<Longrightarrow> digits n = [spec_digit (int n)]"
  by (subst digits.simps) (simp add: char_of_digit)

lemma digits_two:
  "10 \<le> n \<Longrightarrow> n < 100 \<Longrightarrow> digits n = [spec_digit (int n div 10), spec_digit (int n mod 10)]"
proof -
  assume a: "10 \<le> n" "n < 100"
  then have "n div 10 < 10" "n mod 10 < 10"
    by simp_all
  then show ?thesis
    using a by (subst digits.simps) (simp add: digits_small char_of_digit zdiv_int zmod_int)
qed

lemma to_string_number: "0 \<le> i \<Longrightarrow> i < 100 \<Longrightarrow> to_string i = spec_number i"
proof -
  assume a: "0 \<le> i" "i < 100"
  show ?thesis
  proof (cases "i < 10")
    case True
    with a show ?thesis
      by (simp add: to_string_def spec_number_def digits_small)
  next
    case False
    with a have "10 \<le> nat i" "nat i < 100"
      by simp_all
    from digits_two [OF this] False a show ?thesis
      by (simp add: to_string_def spec_number_def)
  qed
qed

lemma FormatTime_clock:
  assumes "0 \<le> h" "h < 100" "0 \<le> mi" "mi < 100"
  shows "FormatTime h mi = spec_clock_time h mi"
proof -
  have "setw2 (to_string i) = [spec_digit (i div 10), spec_digit (i mod 10)]"
    if "0 \<le> i" "i < 100" for i
  proof (cases "i < 10")
    case True
    with that show ?thesis
      by (simp add: to_string_number spec_number_def setw2_def spec_digit_def)
  next
    case False
    with that show ?thesis
      by (simp add: to_string_number spec_number_def setw2_def)
  qed
  with assms show ?thesis
    by (simp add: FormatTime_def spec_clock_time_def)
qed

lemma c_div_nonneg: "0 \<le> a \<Longrightarrow> 0 < b \<Longrightarrow> c_div a b = a div b"
  by (cases "a = 0") (simp_all add: c_div_def)

lemma c_mod_nonneg: "0 \<le> a \<Longrightarrow> 0 < b \<Longrightarrow> c_mod a b = a mod b"
  by (simp add: c_mod_def c_div_nonneg minus_mult_div_eq_mod)

lemma format_next_alarm_description:
  assumes "0 \<le> hour a" "hour a \<le> 23" "0 \<le> minute a" "minute a \<le> 59"
    and "0 \<le> d" "d < 24 * 60 * 7"
  shows "format_next_alarm a d = spec_description a d"
proof -
  have t: "FormatTime (hour a) (minute a) = spec_clock_time (hour a) (minute a)"
    using assms(1-4) by (intro FormatTime_clock) simp_all
  have dv: "c_div d 60 = d div 60" "c_mod d 60 = d mod 60" "c_div d (24 * 60) = d div 1440"
    using assms(5) by (simp_all add: c_div_nonneg c_mod_nonneg)
  have m: "to_string (d mod 60) = spec_number (d mod 60)"
    by (intro to_string_number) simp_all
  have h: "d < 1440 \<Longrightarrow> to_string (d div 60) = spec_number (d div 60)"
    using assms(5) by (intro to_string_number) simp_all
  have dd: "to_string (d div 1440) = spec_number (d div 1440)"
    using assms(5,6) by (intro to_string_number) simp_all
  have small: "d < 60 \<longleftrightarrow> \<not> d div 60 > 0"
    using assms(5) by (auto simp: pos_imp_zdiv_pos_iff)
  show ?thesis
    unfolding format_next_alarm_def spec_description_def Let_def dv t m dd
    using h small assms(5) by (auto simp: m)
qed

section \<open>Snoozing a ringing alarm (C1)\<close>

text \<open>
  C1. On an initialized manager, for the first alarm with the id, when its status is
  Triggered. Under the ceiling (\<open>snooze_count < max_snooze_count\<close>) \<^verbatim>\<open>SnoozeAlarm\<close>
  returns true and leaves the manager it found but for that alarm, whose status is
  Snoozed, whose \<open>snooze_count\<close> is one more and whose \<open>next_snooze_time\<close> is the timer's
  seconds plus \<open>snooze_minutes * 60\<close>, and for the invocation of \<^verbatim>\<open>OnAlarmSnoozed\<close> with
  it when a callback is registered: this half of the claim holds. At the ceiling the
  claim says that \<^verbatim>\<open>SnoozeAlarm\<close> returns false with the alarm stopped. It does not
  return: it calls \<^verbatim>\<open>StopAlarm\<close> while its \<^verbatim>\<open>lock_guard\<close> holds \<^verbatim>\<open>alarms_mutex_\<close>, and
  \<^verbatim>\<open>StopAlarm\<close> locks the same mutex first (\<open>StopAlarm_held\<close>). What \<^verbatim>\<open>StopAlarm\<close>
  does when it is called with the mutex free is \<open>StopAlarm_active\<close>.
\<close>

theorem SnoozeAlarm_on_triggered:
  assumes "initialized m" and "\<not> alarms_mutex m" and "find_if alarm_id (alarms m) = Some it"
    and "status (alarms m ! it) = kAlarmTriggered"
  shows "(snooze_count (alarms m ! it) < max_snooze_count (alarms m ! it) \<longrightarrow>
           SnoozeAlarm now alarm_id m
             = Some (True,
                 m\<lparr>alarms := (alarms m)
                      [it := (alarms m ! it)
                         \<lparr>status := kAlarmSnoozed,
                          snooze_count := snooze_count (alarms m ! it) + 1,
                          next_snooze_time := now + snooze_minutes (alarms m ! it) * 60\<rparr>],
                   calls := calls m @
                      (if on_alarm_snoozed m
                       then [OnAlarmSnoozed ((alarms m ! it)
                         \<lparr>status := kAlarmSnoozed,
                          snooze_count := snooze_count (alarms m ! it) + 1,
                          next_snooze_time := now + snooze_minutes (alarms m ! it) * 60\<rparr>)]
                       else [])\<rparr>))
       \<and> (\<not> snooze_count (alarms m ! it) < max_snooze_count (alarms m ! it) \<longrightarrow>
           SnoozeAlarm now alarm_id m = None)"
  using SnoozeAlarm_below_ceiling [OF assms] SnoozeAlarm_at_ceiling [OF assms] by blast

theorem SnoozeAlarm_on_triggered_witness:
  "find_if 1 (alarms (example_manager [ringing_alarm])) = Some 0
   \<and> status (alarms (example_manager [ringing_alarm]) ! 0) = kAlarmTriggered
   \<and> snooze_count ringing_alarm < max_snooze_count ringing_alarm
   \<and> SnoozeAlarm 1000 1 (example_manager [ringing_alarm])
       = Some (True, (example_manager [ringing_alarm])
            \<lparr>alarms := [snoozed_alarm], calls := [OnAlarmSnoozed snoozed_alarm]\<rparr>)
   \<and> find_if 1 (alarms (example_manager [exhausted_alarm])) = Some 0
   \<and> status (alarms (example_manager [exhausted_alarm]) ! 0) = kAlarmTriggered
   \<and> snooze_count exhausted_alarm = max_snooze_count exhausted_alarm
   \<and> SnoozeAlarm 1900 1 (example_manager [exhausted_alarm]) = None"
proof -
  have r: "initialized (example_manager [ringing_alarm])"
    "\<not> alarms_mutex (example_manager [ringing_alarm])"
    "find_if 1 (alarms (example_manager [ringing_alarm])) = Some 0"
    "status (alarms (example_manager [ringing_alarm]) ! 0) = kAlarmTriggered"
    by (simp_all add: ringing_alarm_def example_alarm_def)
  have e: "initialized (example_manager [exhausted_alarm])"
    "\<not> alarms_mutex (example_manager [exhausted_alarm])"
    "find_if 1 (alarms (example_manager [exhausted_alarm])) = Some 0"
    "status (alarms (example_manager [exhausted_alarm]) ! 0) = kAlarmTriggered"
    by (simp_all add: exhausted_alarm_def example_alarm_def)
  have s: "ringing_alarm\<lparr>status := kAlarmSnoozed, snooze_count := snooze_count ringing_alarm + 1,
      next_snooze_time := 1000 + snooze_minutes ringing_alarm * 60\<rparr> = snoozed_alarm"
    by (simp add: ringing_alarm_def snoozed_alarm_def example_alarm_def)
  have c: "snooze_count ringing_alarm < max_snooze_count ringing_alarm"
    "snooze_count exhausted_alarm = max_snooze_count exhausted_alarm"
    by (simp_all add: ringing_alarm_def exhausted_alarm_def example_alarm_def)
  from SnoozeAlarm_on_triggered [OF r, of 1000] SnoozeAlarm_on_triggered [OF e, of 1900] r e c s
  show ?thesis
    by simp
qed

section \<open>The re-fire guard (C2)\<close>

text \<open>
  C2, as the code has it. Take an Enabled alarm (ids distinct) whose \<open>hour * 60 + minute\<close>
  is the current minute of the day, on a weekday that is active for it, and two calls of
  \<^verbatim>\<open>CheckAlarms\<close>. When the guard holds the alarm back in the first call, that is when its
  \<open>last_triggered_time\<close> is positive and less than 60 seconds before the call's second
  reading of the timer, the call leaves the alarm as it is and invokes nothing for it,
  and so does the second call when its reading is within the 60 seconds too. Otherwise
  the first call makes the alarm Triggered, sets \<open>last_triggered_time\<close> to that reading
  and \<open>snooze_count\<close> to 0 and, with a callback registered, invokes \<^verbatim>\<open>OnAlarmTriggered\<close>
  once for it; the second call, whatever its clocks read (within the same 60 seconds in
  particular), leaves the alarm as it is and invokes nothing for it.
\<close>

theorem refire_guard:
  assumes "initialized m" and "\<not> alarms_mutex m" and "distinct (map id_field (alarms m))"
    and "i < length (alarms m)"
    and "status (alarms m ! i) = kAlarmEnabled"
    and "hour (alarms m ! i) * 60 + minute (alarms m ! i) = current_time_minutes clk1"
    and "ShouldTriggerToday (current_weekday_at clk1 i) (alarms m ! i)"
  shows "\<exists>m1 m2. CheckAlarms clk1 m = Some ((), m1) \<and> CheckAlarms clk2 m1 = Some ((), m2)
           \<and> (if 0 < last_triggered_time (alarms m ! i)
                  \<and> current_time_in_seconds clk1 i - last_triggered_time (alarms m ! i) < 60
               then alarms m1 ! i = alarms m ! i
                 \<and> calls_for (id_field (alarms m ! i)) (calls m1)
                     = calls_for (id_field (alarms m ! i)) (calls m)
                 \<and> (current_time_in_seconds clk2 i - last_triggered_time (alarms m ! i) < 60 \<longrightarrow>
                      alarms m2 ! i = alarms m ! i
                      \<and> calls_for (id_field (alarms m ! i)) (calls m2)
                          = calls_for (id_field (alarms m ! i)) (calls m))
               else alarms m1 ! i = (alarms m ! i)
                      \<lparr>status := kAlarmTriggered,
                       last_triggered_time := current_time_in_seconds clk1 i, snooze_count := 0\<rparr>
                 \<and> calls_for (id_field (alarms m ! i)) (calls m1)
                     = calls_for (id_field (alarms m ! i)) (calls m)
                       @ (if on_alarm_triggered m then [OnAlarmTriggered (alarms m1 ! i)] else [])
                 \<and> alarms m2 ! i = alarms m1 ! i
                 \<and> calls_for (id_field (alarms m ! i)) (calls m2)
                     = calls_for (id_field (alarms m ! i)) (calls m1))"
proof -
  let ?body1 = "CheckAlarms_body clk1 (on_alarm_triggered m)"
  let ?m1 = "for_each ?body1 m"
  let ?body2 = "CheckAlarms_body clk2 (on_alarm_triggered ?m1)"
  let ?m2 = "for_each ?body2 ?m1"
  let ?a = "alarms m ! i"
  let ?a' = "?a\<lparr>status := kAlarmTriggered,
                 last_triggered_time := current_time_in_seconds clk1 i, snooze_count := 0\<rparr>"
  let ?held = "0 < last_triggered_time ?a \<and> current_time_in_seconds clk1 i - last_triggered_time ?a < 60"
  have run1: "CheckAlarms clk1 m = Some ((), ?m1)"
    using assms(1,2) by (rule CheckAlarms_free)
  have init1: "initialized ?m1" and free1: "\<not> alarms_mutex ?m1"
    using assms(1,2) by simp_all
  have run2: "CheckAlarms clk2 ?m1 = Some ((), ?m2)"
    using init1 free1 by (rule CheckAlarms_free)
  have ids1: "map id_field (alarms ?m1) = map id_field (alarms m)"
    by (rule for_each_ids) (rule CheckAlarms_body_id)
  have dist1: "distinct (map id_field (alarms ?m1))"
    using assms(3) ids1 by simp
  have len1: "i < length (alarms ?m1)"
    using assms(4) by simp
  have nth1: "alarms ?m1 ! i = fst (?body1 i ?a)"
    using assms(4) by (simp add: for_each_nth)
  have nth2: "alarms ?m2 ! i = fst (?body2 i (alarms ?m1 ! i))"
    using len1 by (simp add: for_each_nth)
  have calls1: "calls_for (id_field ?a) (calls ?m1)
      = calls_for (id_field ?a) (calls m) @ snd (?body1 i ?a)"
    using CheckAlarms_calls_for [OF assms(1,2,3,4), of clk1] by (simp add: run1)
  have id1: "id_field (alarms ?m1 ! i) = id_field ?a"
    unfolding nth1 by (rule CheckAlarms_body_id)
  have calls2: "calls_for (id_field ?a) (calls ?m2)
      = calls_for (id_field ?a) (calls ?m1) @ snd (?body2 i (alarms ?m1 ! i))"
    using CheckAlarms_calls_for [OF init1 free1 dist1 len1, of clk2] id1 by (simp add: run2)
  have result: "if ?held
      then alarms ?m1 ! i = ?a
        \<and> calls_for (id_field ?a) (calls ?m1) = calls_for (id_field ?a) (calls m)
        \<and> (current_time_in_seconds clk2 i - last_triggered_time ?a < 60 \<longrightarrow>
             alarms ?m2 ! i = ?a
             \<and> calls_for (id_field ?a) (calls ?m2) = calls_for (id_field ?a) (calls m))
      else alarms ?m1 ! i = ?a'
        \<and> calls_for (id_field ?a) (calls ?m1)
            = calls_for (id_field ?a) (calls m)
              @ (if on_alarm_triggered m then [OnAlarmTriggered (alarms ?m1 ! i)] else [])
        \<and> alarms ?m2 ! i = alarms ?m1 ! i
        \<and> calls_for (id_field ?a) (calls ?m2) = calls_for (id_field ?a) (calls ?m1)"
  proof (cases ?held)
    case True
    then have pos: "0 < last_triggered_time ?a"
      and near: "current_time_in_seconds clk1 i - last_triggered_time ?a < 60"
      by simp_all
    have body1: "?body1 i ?a = (?a, [])"
      using assms(5) pos near by (rule CheckAlarms_body_held)
    have a1: "alarms ?m1 ! i = ?a"
      unfolding nth1 body1 by simp
    have c1: "calls_for (id_field ?a) (calls ?m1) = calls_for (id_field ?a) (calls m)"
      unfolding calls1 body1 by simp
    have second: "alarms ?m2 ! i = ?a
        \<and> calls_for (id_field ?a) (calls ?m2) = calls_for (id_field ?a) (calls m)"
      if "current_time_in_seconds clk2 i - last_triggered_time ?a < 60"
    proof -
      have body2: "?body2 i ?a = (?a, [])"
        using assms(5) pos that by (rule CheckAlarms_body_held)
      have "alarms ?m2 ! i = ?a"
        unfolding nth2 a1 body2 by simp
      moreover have "calls_for (id_field ?a) (calls ?m2) = calls_for (id_field ?a) (calls m)"
        unfolding calls2 a1 body2 c1 by simp
      ultimately show ?thesis
        by simp
    qed
    from a1 c1 second have "alarms ?m1 ! i = ?a
        \<and> calls_for (id_field ?a) (calls ?m1) = calls_for (id_field ?a) (calls m)
        \<and> (current_time_in_seconds clk2 i - last_triggered_time ?a < 60 \<longrightarrow>
             alarms ?m2 ! i = ?a
             \<and> calls_for (id_field ?a) (calls ?m2) = calls_for (id_field ?a) (calls m))"
      by blast
    then show ?thesis
      by (subst if_P [OF True])
  next
    case False
    have body1: "?body1 i ?a = (?a', if on_alarm_triggered m then [OnAlarmTriggered ?a'] else [])"
      using assms(5-7) False by (rule CheckAlarms_body_fire)
    have a1: "alarms ?m1 ! i = ?a'"
      unfolding nth1 body1 by simp
    have c1: "calls_for (id_field ?a) (calls ?m1)
        = calls_for (id_field ?a) (calls m)
          @ (if on_alarm_triggered m then [OnAlarmTriggered (alarms ?m1 ! i)] else [])"
      unfolding calls1 a1 body1 by (simp only: snd_conv)
    have body2: "?body2 i ?a' = (?a', [])"
      by (rule CheckAlarms_body_idle) simp
    have a2: "alarms ?m2 ! i = alarms ?m1 ! i"
      unfolding nth2 a1 body2 by simp
    have c2: "calls_for (id_field ?a) (calls ?m2) = calls_for (id_field ?a) (calls ?m1)"
      unfolding calls2 unfolding a1 body2 by simp
    from a1 c1 a2 c2 have "alarms ?m1 ! i = ?a'
        \<and> calls_for (id_field ?a) (calls ?m1)
            = calls_for (id_field ?a) (calls m)
              @ (if on_alarm_triggered m then [OnAlarmTriggered (alarms ?m1 ! i)] else [])
        \<and> alarms ?m2 ! i = alarms ?m1 ! i
        \<and> calls_for (id_field ?a) (calls ?m2) = calls_for (id_field ?a) (calls ?m1)"
      by blast
    then show ?thesis
      by (subst if_not_P [OF False])
  qed
  from run1 run2 result show ?thesis
    by blast
qed

theorem refire_guard_witness:
  "initialized (example_manager [example_alarm]) \<and> \<not> alarms_mutex (example_manager [example_alarm])
   \<and> status (alarms (example_manager [example_alarm]) ! 0) = kAlarmEnabled
   \<and> hour (alarms (example_manager [example_alarm]) ! 0) * 60
         + minute (alarms (example_manager [example_alarm]) ! 0)
       = current_time_minutes (clock_at 1000 450 1)
   \<and> ShouldTriggerToday (current_weekday_at (clock_at 1000 450 1) 0)
         (alarms (example_manager [example_alarm]) ! 0)
   \<and> last_triggered_time (alarms (example_manager [example_alarm]) ! 0) = 0
   \<and> (\<exists>m1 m2.
         CheckAlarms (clock_at 1000 450 1) (example_manager [example_alarm]) = Some ((), m1)
         \<and> CheckAlarms (clock_at 1030 450 1) m1 = Some ((), m2)
         \<and> alarms m1 ! 0 = ringing_alarm
         \<and> calls_for 1 (calls m1) = [OnAlarmTriggered ringing_alarm]
         \<and> alarms m2 ! 0 = ringing_alarm
         \<and> calls_for 1 (calls m2) = [OnAlarmTriggered ringing_alarm])
   \<and> status (alarms (example_manager [stopped_alarm]) ! 0) = kAlarmEnabled
   \<and> last_triggered_time (alarms (example_manager [stopped_alarm]) ! 0) = 1000
   \<and> (\<exists>m1 m2.
         CheckAlarms (clock_at 1020 450 1) (example_manager [stopped_alarm]) = Some ((), m1)
         \<and> CheckAlarms (clock_at 1050 450 1) m1 = Some ((), m2)
         \<and> alarms m1 ! 0 = stopped_alarm \<and> calls_for 1 (calls m1) = []
         \<and> alarms m2 ! 0 = stopped_alarm \<and> calls_for 1 (calls m2) = [])"
proof -
  have h: "initialized (example_manager [example_alarm])"
    "\<not> alarms_mutex (example_manager [example_alarm])"
    "distinct (map id_field (alarms (example_manager [example_alarm])))"
    "0 < length (alarms (example_manager [example_alarm]))"
    "status (alarms (example_manager [example_alarm]) ! 0) = kAlarmEnabled"
    "hour (alarms (example_manager [example_alarm]) ! 0) * 60
         + minute (alarms (example_manager [example_alarm]) ! 0)
       = current_time_minutes (clock_at 1000 450 1)"
    "ShouldTriggerToday (current_weekday_at (clock_at 1000 450 1) 0)
         (alarms (example_manager [example_alarm]) ! 0)"
    by (simp_all add: example_alarm_def ShouldTriggerToday_def IsWeekdayActive_def)
  have s: "initialized (example_manager [stopped_alarm])"
    "\<not> alarms_mutex (example_manager [stopped_alarm])"
    "distinct (map id_field (alarms (example_manager [stopped_alarm])))"
    "0 < length (alarms (example_manager [stopped_alarm]))"
    "status (alarms (example_manager [stopped_alarm]) ! 0) = kAlarmEnabled"
    "hour (alarms (example_manager [stopped_alarm]) ! 0) * 60
         + minute (alarms (example_manager [stopped_alarm]) ! 0)
       = current_time_minutes (clock_at 1020 450 1)"
    "ShouldTriggerToday (current_weekday_at (clock_at 1020 450 1) 0)
         (alarms (example_manager [stopped_alarm]) ! 0)"
    by (simp_all add: stopped_alarm_def example_alarm_def ShouldTriggerToday_def
        IsWeekdayActive_def)
  have l: "last_triggered_time (alarms (example_manager [example_alarm]) ! 0) = 0"
    "last_triggered_time (alarms (example_manager [stopped_alarm]) ! 0) = 1000"
    by (simp_all add: stopped_alarm_def example_alarm_def)
  have r: "example_alarm\<lparr>status := kAlarmTriggered, last_triggered_time := 1000, snooze_count := 0\<rparr>
      = ringing_alarm"
    by (simp add: ringing_alarm_def example_alarm_def)
  have i: "id_field example_alarm = 1" "id_field stopped_alarm = 1"
    "last_triggered_time example_alarm = 0" "last_triggered_time stopped_alarm = 1000"
    by (simp_all add: example_alarm_def stopped_alarm_def)
  from refire_guard [OF h, of "clock_at 1030 450 1"]
  obtain m1 m2 where fired:
    "CheckAlarms (clock_at 1000 450 1) (example_manager [example_alarm]) = Some ((), m1)"
    "CheckAlarms (clock_at 1030 450 1) m1 = Some ((), m2)"
    "alarms m1 ! 0 = ringing_alarm"
    "calls_for 1 (calls m1) = [OnAlarmTriggered ringing_alarm]"
    "alarms m2 ! 0 = ringing_alarm"
    "calls_for 1 (calls m2) = [OnAlarmTriggered ringing_alarm]"
    by (auto simp: r i calls_for_def)
  from refire_guard [OF s, of "clock_at 1050 450 1"]
  obtain n1 n2 where held:
    "CheckAlarms (clock_at 1020 450 1) (example_manager [stopped_alarm]) = Some ((), n1)"
    "CheckAlarms (clock_at 1050 450 1) n1 = Some ((), n2)"
    "alarms n1 ! 0 = stopped_alarm" "calls_for 1 (calls n1) = []"
    "alarms n2 ! 0 = stopped_alarm" "calls_for 1 (calls n2) = []"
    by (auto simp: i calls_for_def)
  from h s l fired held show ?thesis
    by blast
qed

text \<open>
  The claim as stated is about every Enabled alarm at its minute on an active weekday.
  The daily 07:30 alarm that rang at second 1000 and was stopped is Enabled again; at
  seconds 1010 and 1040 of the same minute the guard holds it back, and the two calls
  change nothing and invoke nothing: no transition to Triggered in the first call.
\<close>

theorem refire_guard_blocks_first_call:
  "status stopped_alarm = kAlarmEnabled
   \<and> hour stopped_alarm * 60 + minute stopped_alarm = current_time_minutes (clock_at 1010 450 1)
   \<and> ShouldTriggerToday (current_weekday_at (clock_at 1010 450 1) 0) stopped_alarm
   \<and> CheckAlarms (clock_at 1010 450 1) (example_manager [stopped_alarm])
       = Some ((), example_manager [stopped_alarm])
   \<and> CheckAlarms (clock_at 1040 450 1) (example_manager [stopped_alarm])
       = Some ((), example_manager [stopped_alarm])"
  by (simp add: CheckAlarms_def lock_guard_def for_each_def CheckAlarms_body_def
      ShouldTriggerToday_def IsWeekdayActive_def stopped_alarm_def example_alarm_def
      example_manager_def clock_at_def)

section \<open>The next alarm (C3)\<close>

text \<open>
  C3. On an initialized manager whose alarms have their hour in 0..23 and their minute in
  0..59 (as on every run, \<open>reachable_inv\<close>), with a current minute of the day in
  0..1439 (\<^verbatim>\<open>tm_hour * 60 + tm_min\<close>): \<^verbatim>\<open>GetNextAlarmInfo\<close> leaves the manager as it is
  and returns the description of the alarm and the distance that the spec's rule gives.
  That rule takes every Enabled alarm, the day offsets 0..6 without offset 0 when the
  alarm's time is not later than now and without the offsets above 0 for a Once alarm,
  the first of them whose weekday has its bit in the alarm's mask (any weekday for a Once
  alarm), and the distance \<open>offset * 1440 + alarm_minutes - current_minutes\<close>; among
  these candidates it reports the first in stored order that attains the least distance.
  The description names the alarm's time, the distance and the label, and is never the
  sentinel. When there is no candidate the result is the sentinel text, which is not
  empty.
\<close>

theorem GetNextAlarmInfo_reports_first_nearest:
  assumes "initialized m" and "\<not> alarms_mutex m"
    and "\<forall>a \<in> set (alarms m). 0 \<le> hour a \<and> hour a \<le> 23 \<and> 0 \<le> minute a \<and> minute a \<le> 59"
    and "0 \<le> current_time" and "current_time < 1440"
  shows "GetNextAlarmInfo current_time current_weekday m
       = Some (case spec_next_alarm (alarms m) current_time current_weekday of
                 None \<Rightarrow> text_no_active_alarms
               | Some (a, d) \<Rightarrow> spec_description a d, m)
     \<and> text_no_active_alarms \<noteq> []
     \<and> (\<forall>a d. spec_description a d \<noteq> text_no_active_alarms)"
proof -
  have code: "GetNextAlarmInfo current_time current_weekday m
      = Some (case next_alarm_search current_time current_weekday (alarms m) of
                (None, min_time_diff) \<Rightarrow> text_no_active_alarms
              | (Some a, min_time_diff) \<Rightarrow> format_next_alarm a min_time_diff, m)"
    using assms(1,2)
    by (auto simp: GetNextAlarmInfo_def lock_guard_def unlock_free
        split: prod.splits option.splits)
  have descr: "format_next_alarm a d = spec_description a d"
    if "spec_next_alarm (alarms m) current_time current_weekday = Some (a, d)" for a d
  proof -
    from spec_next_alarm_candidate [OF that]
    have a: "a \<in> set (alarms m)"
      and d: "spec_distance a current_time current_weekday = Some d"
      by simp_all
    from a assms(3) have r: "0 \<le> hour a" "hour a \<le> 23" "0 \<le> minute a" "minute a \<le> 59"
      by simp_all
    from spec_distance_positive [OF r(1,3) assms(5) d] have "0 \<le> d"
      by simp
    moreover from spec_distance_bound [OF r assms(4) d] have "d < 24 * 60 * 7" .
    ultimately show ?thesis
      using r by (intro format_next_alarm_description)
  qed
  have "GetNextAlarmInfo current_time current_weekday m
       = Some (case spec_next_alarm (alarms m) current_time current_weekday of
                 None \<Rightarrow> text_no_active_alarms
               | Some (a, d) \<Rightarrow> spec_description a d, m)"
    unfolding code next_alarm_search_spec [OF assms(3,4)]
    using descr by (auto split: option.splits)
  moreover have "text_no_active_alarms \<noteq> []"
    by (simp add: text_no_active_alarms_def)
  moreover have "spec_description a d \<noteq> text_no_active_alarms" for a d
    by (simp add: spec_description_def text_next_alarm_def text_no_active_alarms_def)
  ultimately show ?thesis
    by blast
qed

theorem GetNextAlarmInfo_reports_first_nearest_witness:
  "initialized (example_manager [once_alarm, weekdays_alarm])
   \<and> \<not> alarms_mutex (example_manager [once_alarm, weekdays_alarm])
   \<and> spec_candidates [once_alarm, weekdays_alarm] 420 2 = [(once_alarm, 60), (weekdays_alarm, 60)]
   \<and> spec_next_alarm [once_alarm, weekdays_alarm] 420 2 = Some (once_alarm, 60)
   \<and> GetNextAlarmInfo 420 2 (example_manager [once_alarm, weekdays_alarm])
       = Some (text_next_alarm @ ''08:00 (1'' @ text_hours @ ''0'' @ text_minutes_later @ '' - once'',
               example_manager [once_alarm, weekdays_alarm])
   \<and> spec_next_alarm [weekdays_alarm] 540 5 = Some (weekdays_alarm, 4260)
   \<and> GetNextAlarmInfo 540 5 (example_manager [weekdays_alarm])
       = Some (text_next_alarm @ ''08:00 (2'' @ text_days_later @ '' - work'',
               example_manager [weekdays_alarm])
   \<and> spec_next_alarm [once_alarm] 481 2 = None
   \<and> GetNextAlarmInfo 481 2 (example_manager [once_alarm])
       = Some (text_no_active_alarms, example_manager [once_alarm])"
proof -
  have h: "initialized (example_manager [once_alarm, weekdays_alarm])"
    "\<not> alarms_mutex (example_manager [once_alarm, weekdays_alarm])"
    "\<forall>a \<in> set (alarms (example_manager [once_alarm, weekdays_alarm])).
       0 \<le> hour a \<and> hour a \<le> 23 \<and> 0 \<le> minute a \<and> minute a \<le> 59"
    by (simp_all add: once_alarm_def weekdays_alarm_def AlarmItem_new_def)
  have h1: "initialized (example_manager [once_alarm])"
    "\<not> alarms_mutex (example_manager [once_alarm])"
    "\<forall>a \<in> set (alarms (example_manager [once_alarm])).
       0 \<le> hour a \<and> hour a \<le> 23 \<and> 0 \<le> minute a \<and> minute a \<le> 59"
    by (simp_all add: once_alarm_def AlarmItem_new_def)
  have h2: "initialized (example_manager [weekdays_alarm])"
    "\<not> alarms_mutex (example_manager [weekdays_alarm])"
    "\<forall>a \<in> set (alarms (example_manager [weekdays_alarm])).
       0 \<le> hour a \<and> hour a \<le> 23 \<and> 0 \<le> minute a \<and> minute a \<le> 59"
    by (simp_all add: weekdays_alarm_def AlarmItem_new_def)
  have b: "bit (62 :: 8 word) d \<longleftrightarrow> d \<in> {1, 2, 3, 4, 5}" for d
    using mask_bits(2) by auto
  have o: "spec_offsets once_alarm 420 2 = [0]" "spec_offsets weekdays_alarm 420 2 = [0, 1, 2, 3, 6]"
    "spec_offsets once_alarm 481 2 = []" "spec_offsets weekdays_alarm 540 5 = [3, 4, 5, 6]"
    by (simp_all add: spec_offsets_def spec_weekday_active_def once_alarm_def weekdays_alarm_def
        AlarmItem_new_def b upt_rec)
  have f: "status once_alarm = kAlarmEnabled" "status weekdays_alarm = kAlarmEnabled"
    "hour once_alarm * 60 + minute once_alarm = 480"
    "hour weekdays_alarm * 60 + minute weekdays_alarm = 480"
    by (simp_all add: once_alarm_def weekdays_alarm_def AlarmItem_new_def)
  have c: "spec_candidates [once_alarm, weekdays_alarm] 420 2
      = [(once_alarm, 60), (weekdays_alarm, 60)]"
    "spec_candidates [once_alarm] 481 2 = []"
    "spec_candidates [weekdays_alarm] 540 5 = [(weekdays_alarm, 4260)]"
    by (simp_all add: spec_candidates_def spec_distance_def o f)
  have n: "spec_next_alarm [once_alarm, weekdays_alarm] 420 2 = Some (once_alarm, 60)"
    "spec_next_alarm [once_alarm] 481 2 = None"
    "spec_next_alarm [weekdays_alarm] 540 5 = Some (weekdays_alarm, 4260)"
    by (simp_all add: spec_next_alarm_def c)
  have t: "spec_description once_alarm 60
      = text_next_alarm @ ''08:00 (1'' @ text_hours @ ''0'' @ text_minutes_later @ '' - once''"
    "spec_description weekdays_alarm 4260
      = text_next_alarm @ ''08:00 (2'' @ text_days_later @ '' - work''"
    by (simp_all add: spec_description_def spec_clock_time_def spec_number_def spec_digit_def
        once_alarm_def weekdays_alarm_def AlarmItem_new_def)
  have z: "(0::int) \<le> 420" "(420::int) < 1440" "(0::int) \<le> 481" "(481::int) < 1440"
    "(0::int) \<le> 540" "(540::int) < 1440"
    by simp_all
  from GetNextAlarmInfo_reports_first_nearest [OF h z(1,2), of 2]
    GetNextAlarmInfo_reports_first_nearest [OF h1 z(3,4), of 2]
    GetNextAlarmInfo_reports_first_nearest [OF h2 z(5,6), of 5] h c n t
  show ?thesis
    by simp
qed

section \<open>Enabling and disabling (C4)\<close>

text \<open>
  C4, as the code has it. On an initialized manager \<^verbatim>\<open>EnableAlarm(id, enabled)\<close> returns
  false and changes nothing when no alarm has the id. Otherwise it returns true and
  assigns Enabled (for \<open>enabled\<close>) or Disabled to the status of the first alarm with the
  id, whatever that status was, Triggered and Snoozed included; no other field and no
  other alarm changes, and no callback is invoked.
\<close>

theorem EnableAlarm_sets_status:
  assumes "initialized m" and "\<not> alarms_mutex m"
  shows "case find_if alarm_id (alarms m) of
           None \<Rightarrow> EnableAlarm alarm_id enabled m = Some (False, m)
         | Some it \<Rightarrow>
             (\<exists>m'. EnableAlarm alarm_id enabled m = Some (True, m')
                \<and> alarms m' = (alarms m)
                     [it := (alarms m ! it)
                        \<lparr>status := (if enabled then kAlarmEnabled else kAlarmDisabled)\<rparr>]
                \<and> calls m' = calls m)"
  using assms
  by (auto simp: EnableAlarm_def lock_guard_def assign_def SaveAlarmToStorage_def Let_def
      split: option.splits)

theorem EnableAlarm_sets_status_witness:
  "initialized (example_manager [ringing_alarm])
   \<and> \<not> alarms_mutex (example_manager [ringing_alarm])
   \<and> find_if 1 (alarms (example_manager [ringing_alarm])) = Some 0
   \<and> find_if 2 (alarms (example_manager [ringing_alarm])) = None
   \<and> map_option fst (EnableAlarm 1 False (example_manager [ringing_alarm])) = Some True
   \<and> map_option (alarms \<circ> snd) (EnableAlarm 1 False (example_manager [ringing_alarm]))
       = Some [ringing_alarm\<lparr>status := kAlarmDisabled\<rparr>]
   \<and> EnableAlarm 2 False (example_manager [ringing_alarm])
       = Some (False, example_manager [ringing_alarm])"
proof -
  have i: "initialized (example_manager [ringing_alarm])"
    and f: "\<not> alarms_mutex (example_manager [ringing_alarm])"
    by (simp_all add: example_manager_def)
  have f1: "find_if 1 (alarms (example_manager [ringing_alarm])) = Some 0"
    and f2: "find_if 2 (alarms (example_manager [ringing_alarm])) = None"
    by (simp_all add: example_manager_def ringing_alarm_def example_alarm_def)
  from EnableAlarm_sets_status [OF i f, of 1 False] EnableAlarm_sets_status [OF i f, of 2 False]
  show ?thesis
    unfolding f1 f2 using i f f1 f2
    by (auto simp: example_manager_def)
qed

text \<open>
  The claim as stated says that an alarm whose status is Triggered or Snoozed is not
  touched. \<^verbatim>\<open>EnableAlarm\<close> has no test of the status: enabling the ringing alarm makes it
  Enabled.
\<close>

theorem EnableAlarm_touches_ringing_alarm:
  "status ringing_alarm = kAlarmTriggered
   \<and> map_option (map status \<circ> alarms \<circ> snd) (EnableAlarm 1 True (example_manager [ringing_alarm]))
       = Some [kAlarmEnabled]"
  by (simp add: EnableAlarm_def lock_guard_def assign_def SaveAlarmToStorage_def
      example_manager_def ringing_alarm_def example_alarm_def)

section \<open>The weekday mask of a repeat mode (C5)\<close>

text \<open>
  C5, as the code has it. With a valid time, on an initialized manager, the alarm that
  \<^verbatim>\<open>AddAlarm\<close> appends and the alarm that \<^verbatim>\<open>ModifyAlarm\<close> rewrites have the repeat mode
  passed in, and their mask has exactly the weekdays the spec gives for it: all seven for
  Daily, Monday to Friday for Weekdays, Saturday and Sunday for Weekends. Neither method
  takes a mask from its caller. For Custom (and Once) \<^verbatim>\<open>AddAlarm\<close> sets the mask to 0,
  and \<^verbatim>\<open>ModifyAlarm\<close> leaves the mask the alarm had: in the spec's rule the "caller's
  mask" is 0 for the first and the stored mask for the second.
\<close>

theorem weekdays_mask_from_repeat_mode:
  assumes "initialized m" and "settings m" and "\<not> alarms_mutex m"
    and "0 \<le> h" and "h \<le> 23" and "0 \<le> mi" and "mi \<le> 59"
  shows "(\<exists>new_id m' a.
            AddAlarm h mi mode lbl music m = Some (new_id, m')
            \<and> alarms m' = alarms m @ [a] \<and> repeat_mode a = mode
            \<and> {d. bit (weekdays_mask a) d} = spec_active_weekdays mode 0
            \<and> (mode = kAlarmCustom \<or> mode = kAlarmOnce \<longrightarrow> weekdays_mask a = 0))
       \<and> (\<forall>it. find_if alarm_id (alarms m) = Some it \<longrightarrow>
            (\<exists>m'. ModifyAlarm alarm_id h mi mode lbl music m = Some (True, m')
               \<and> repeat_mode (alarms m' ! it) = mode
               \<and> {d. bit (weekdays_mask (alarms m' ! it)) d}
                   = spec_active_weekdays mode (weekdays_mask (alarms m ! it))
               \<and> (mode = kAlarmCustom \<or> mode = kAlarmOnce \<longrightarrow>
                    weekdays_mask (alarms m' ! it) = weekdays_mask (alarms m ! it))))"
proof (intro conjI allI impI)
  define a where "a =
    \<lparr>id_field = next_alarm_id m, hour = h, minute = mi, repeat_mode = mode,
     weekdays_mask = (case mode of kAlarmDaily \<Rightarrow> 0b1111111
                      | kAlarmWeekdays \<Rightarrow> 0b0111110
                      | kAlarmWeekends \<Rightarrow> 0b1000001 | _ \<Rightarrow> 0),
     status = kAlarmEnabled, label = lbl, music_name = music, snooze_count = 0,
     max_snooze_count = default_max_snooze_count m,
     snooze_minutes = default_snooze_minutes m,
     last_triggered_time = 0, next_snooze_time = 0\<rparr>"
  from AddAlarm_valid [OF assms, of mode lbl music]
  obtain m' where m': "AddAlarm h mi mode lbl music m = Some (next_alarm_id m, m')"
    "alarms m' = alarms m @ [a]"
    unfolding a_def by blast
  have "repeat_mode a = mode"
    by (simp add: a_def)
  moreover have "{d. bit (weekdays_mask a) d} = spec_active_weekdays mode 0"
    by (cases mode) (simp_all only: a_def AlarmItem.simps spec_active_weekdays_def AlarmRepeatMode.case mask_bits)
  moreover have "mode = kAlarmCustom \<or> mode = kAlarmOnce \<longrightarrow> weekdays_mask a = 0"
    by (auto simp: a_def)
  ultimately show "\<exists>new_id m' a.
            AddAlarm h mi mode lbl music m = Some (new_id, m')
            \<and> alarms m' = alarms m @ [a] \<and> repeat_mode a = mode
            \<and> {d. bit (weekdays_mask a) d} = spec_active_weekdays mode 0
            \<and> (mode = kAlarmCustom \<or> mode = kAlarmOnce \<longrightarrow> weekdays_mask a = 0)"
    using m' by blast
next
  fix it
  assume it: "find_if alarm_id (alarms m) = Some it"
  then have lt: "it < length (alarms m)"
    by (simp add: find_if_Some)
  define w where "w = (case mode of kAlarmDaily \<Rightarrow> 0b1111111
                                     | kAlarmWeekdays \<Rightarrow> 0b0111110
                                     | kAlarmWeekends \<Rightarrow> 0b1000001
                                     | _ \<Rightarrow> weekdays_mask (alarms m ! it))"
  from ModifyAlarm_valid [OF assms(1) assms(3-7) it, of mode lbl music]
  obtain m' where m': "ModifyAlarm alarm_id h mi mode lbl music m = Some (True, m')"
    "alarms m' = (alarms m)
               [it := (alarms m ! it)
                  \<lparr>hour := h, minute := mi, repeat_mode := mode, label := lbl,
                   music_name := music, weekdays_mask := w\<rparr>]"
    unfolding w_def by blast
  have "repeat_mode (alarms m' ! it) = mode" and mask: "weekdays_mask (alarms m' ! it) = w"
    using lt by (simp_all add: m'(2))
  moreover have "{d. bit w d} = spec_active_weekdays mode (weekdays_mask (alarms m ! it))"
    by (cases mode) (simp_all only: w_def spec_active_weekdays_def AlarmRepeatMode.case mask_bits)
  moreover have "mode = kAlarmCustom \<or> mode = kAlarmOnce \<longrightarrow> w = weekdays_mask (alarms m ! it)"
    by (auto simp: w_def)
  ultimately show "\<exists>m'. ModifyAlarm alarm_id h mi mode lbl music m = Some (True, m')
               \<and> repeat_mode (alarms m' ! it) = mode
               \<and> {d. bit (weekdays_mask (alarms m' ! it)) d}
                   = spec_active_weekdays mode (weekdays_mask (alarms m ! it))
               \<and> (mode = kAlarmCustom \<or> mode = kAlarmOnce \<longrightarrow>
                    weekdays_mask (alarms m' ! it) = weekdays_mask (alarms m ! it))"
    using m'(1) by auto
qed


theorem weekdays_mask_from_repeat_mode_witness:
  "initialized (example_manager [example_alarm]) \<and> settings (example_manager [example_alarm])
   \<and> \<not> alarms_mutex (example_manager [example_alarm])
   \<and> find_if 1 (alarms (example_manager [example_alarm])) = Some 0
   \<and> (\<exists>new_id m' a.
         AddAlarm 7 30 kAlarmCustom ''gym'' [] (example_manager [example_alarm]) = Some (new_id, m')
         \<and> alarms m' = alarms (example_manager [example_alarm]) @ [a]
         \<and> weekdays_mask a = 0)
   \<and> (\<exists>m'. ModifyAlarm 1 7 30 kAlarmCustom ''gym'' [] (example_manager [example_alarm])
               = Some (True, m')
         \<and> weekdays_mask (alarms m' ! 0)
             = weekdays_mask (alarms (example_manager [example_alarm]) ! 0))"
proof -
  have h: "initialized (example_manager [example_alarm])"
    "settings (example_manager [example_alarm])"
    "\<not> alarms_mutex (example_manager [example_alarm])"
    by (simp_all add: example_manager_def)
  have f: "find_if 1 (alarms (example_manager [example_alarm])) = Some 0"
    by (simp add: example_manager_def example_alarm_def)
  have t: "(0::int) \<le> 7" "(7::int) \<le> 23" "(0::int) \<le> 30" "(30::int) \<le> 59"
    by simp_all
  from weekdays_mask_from_repeat_mode [OF h t, of kAlarmCustom "''gym''" "[]" 1] f h
  show ?thesis
    by blast
qed

text \<open>
  The claim as stated says that for Custom the mask is the caller's. A caller who wants
  Monday, Wednesday and Friday (\<open>0b0101010\<close>) has no argument to say so, and the alarm
  \<^verbatim>\<open>AddAlarm\<close> creates has the mask 0.
\<close>

theorem AddAlarm_custom_mask_is_zero:
  "map_option (map weekdays_mask \<circ> alarms \<circ> snd)
       (AddAlarm 7 30 kAlarmCustom ''gym'' [] (example_manager [])) = Some [0]
   \<and> map_option (map weekdays_mask \<circ> alarms \<circ> snd)
       (AddAlarm 7 30 kAlarmCustom ''gym'' [] (example_manager [])) \<noteq> Some [0b0101010]"
  by (simp add: AddAlarm_def lock_guard_def GetNextAlarmId_def AlarmItem_new_def Let_def
      example_manager_def)

section \<open>Loading from storage (C6)\<close>

text \<open>
  C6. Every alarm that \<^verbatim>\<open>LoadAlarmsFromStorage\<close> puts into the list comes from a stored
  record. Its status is the stored one, except that Triggered and Snoozed become Enabled
  (an absent status is the constructor's Enabled); \<open>snooze_count\<close>,
  \<open>last_triggered_time\<close> and \<open>next_snooze_time\<close> are 0; every other field that the
  record holds is taken from it (the mask through the conversion to \<^verbatim>\<open>uint8_t\<close>).
\<close>

theorem load_downgrades_and_resets:
  assumes "LoadAlarmsFromStorage m = Some (r, m')" and "a \<in> set (alarms m')"
  shows "\<exists>json \<in> ran (key_alarm (nvs m)).
           a = from_json json
           \<and> status a = (case j_status json of
                           None \<Rightarrow> kAlarmEnabled
                         | Some s \<Rightarrow> if s = kAlarmTriggered \<or> s = kAlarmSnoozed
                                     then kAlarmEnabled else s)
           \<and> snooze_count a = 0 \<and> last_triggered_time a = 0 \<and> next_snooze_time a = 0
           \<and> (\<forall>v. j_id json = Some v \<longrightarrow> id_field a = v)
           \<and> (\<forall>v. j_hour json = Some v \<longrightarrow> hour a = v)
           \<and> (\<forall>v. j_minute json = Some v \<longrightarrow> minute a = v)
           \<and> (\<forall>v. j_repeat json = Some v \<longrightarrow> repeat_mode a = v)
           \<and> (\<forall>v. j_weekdays json = Some v \<longrightarrow> uint (weekdays_mask a) = v mod 256)
           \<and> (\<forall>v. j_label json = Some v \<longrightarrow> label a = v)
           \<and> (\<forall>v. j_music json = Some v \<longrightarrow> music_name a = v)
           \<and> (\<forall>v. j_snooze_minutes json = Some v \<longrightarrow> snooze_minutes a = v)
           \<and> (\<forall>v. j_max_snooze json = Some v \<longrightarrow> max_snooze_count a = v)"
proof -
  from assms have "a \<in> set (load_loop (nvs m) (GetInt (key_count (nvs m)) 0))"
    by (simp add: LoadAlarms_alarms)
  then obtain i json where json: "key_alarm (nvs m) i = Some json" and a: "a = from_json json"
    using load_loop_set by blast
  have "json \<in> ran (key_alarm (nvs m))"
    using json by (auto simp: ran_def)
  moreover have "uint (word_of_int v :: 8 word) = v mod 256" for v
    by (simp add: uint_word_of_int)
  ultimately show ?thesis
    unfolding a by (intro bexI [of _ json]) (simp_all add: from_json_eq)
qed

theorem load_downgrades_and_resets_witness:
  "LoadAlarmsFromStorage (AlarmManager_new example_store)
     = Some ((), (AlarmManager_new example_store)
          \<lparr>alarms := [example_alarm\<lparr>status := kAlarmEnabled\<rparr>]\<rparr>)
   \<and> status ringing_alarm = kAlarmTriggered
   \<and> (\<exists>json \<in> ran (key_alarm example_store).
         example_alarm\<lparr>status := kAlarmEnabled\<rparr> = from_json json)"
proof -
  have load: "LoadAlarmsFromStorage (AlarmManager_new example_store)
     = Some ((), (AlarmManager_new example_store)
          \<lparr>alarms := [example_alarm\<lparr>status := kAlarmEnabled\<rparr>]\<rparr>)"
    by (simp add: LoadAlarmsFromStorage_def lock_guard_def AlarmManager_new_def example_store_def
        GetInt_def load_loop_def from_json_to_json ringing_alarm_def example_alarm_def)
  have mem: "example_alarm\<lparr>status := kAlarmEnabled\<rparr>
      \<in> set (alarms ((AlarmManager_new example_store)
          \<lparr>alarms := [example_alarm\<lparr>status := kAlarmEnabled\<rparr>]\<rparr>))"
    by simp
  have store: "nvs (AlarmManager_new example_store) = example_store"
    by (simp add: AlarmManager_new_def)
  have "\<exists>json \<in> ran (key_alarm example_store).
          example_alarm\<lparr>status := kAlarmEnabled\<rparr> = from_json json"
    using load_downgrades_and_resets [OF load mem] unfolding store by blast
  with load show ?thesis
    by (simp add: ringing_alarm_def)
qed

section \<open>Validation of the time (C7)\<close>

text \<open>
  C7. For every hour outside 0..23 or minute outside 0..59, \<^verbatim>\<open>AddAlarm\<close> returns -1 and
  \<^verbatim>\<open>ModifyAlarm\<close> returns false, and the manager they leave is the one they found: no
  alarm added, no field of an alarm changed, the id counter, the durable store and the
  callback log as before. (This holds whether or not the manager is initialized and
  whatever the id passed to \<^verbatim>\<open>ModifyAlarm\<close>.)
\<close>

theorem invalid_time_rejected:
  "h < 0 \<or> h > 23 \<or> mi < 0 \<or> mi > 59 \<Longrightarrow>
     AddAlarm h mi mode lbl music m = Some (- 1, m)
     \<and> ModifyAlarm alarm_id h mi mode lbl music m = Some (False, m)"
  by (simp add: AddAlarm_def ModifyAlarm_def)

theorem invalid_time_rejected_witness:
  "AddAlarm 24 0 kAlarmDaily ''late'' [] (example_manager [example_alarm])
     = Some (- 1, example_manager [example_alarm])
   \<and> ModifyAlarm 1 24 0 kAlarmDaily ''late'' [] (example_manager [example_alarm])
     = Some (False, example_manager [example_alarm])"
  using invalid_time_rejected [of 24 0 kAlarmDaily "''late''" "[]" "example_manager [example_alarm]" 1]
  by simp

section \<open>The snooze ceiling on every run (C8)\<close>

text \<open>
  C8. After every sequence of calls of the public methods (and restarts) from the first
  start on an empty store, each call made once the one before has returned, every alarm
  has \<open>snooze_count \<le> max_snooze_count\<close>: this half of the claim holds (with the other
  ranges of the data model, \<open>reachable_inv\<close>). The other half says that the alarm is
  stopped when a snooze would pass the ceiling. In every such state, \<^verbatim>\<open>SnoozeAlarm\<close> on a
  Triggered alarm at its ceiling does not return, for the reason given under C1: the
  count is not incremented, and the alarm is not stopped either.
\<close>

theorem snooze_count_within_ceiling:
  assumes "run cs (AlarmManager_new Settings_empty) = Some m"
  shows "(\<forall>a \<in> set (alarms m). snooze_count a \<le> max_snooze_count a)
       \<and> (\<forall>now alarm_id it.
            find_if alarm_id (alarms m) = Some it
            \<and> status (alarms m ! it) = kAlarmTriggered
            \<and> snooze_count (alarms m ! it) = max_snooze_count (alarms m ! it)
            \<longrightarrow> SnoozeAlarm now alarm_id m = None)"
proof -
  from assms have inv: "manager_inv m"
    by (rule reachable_inv)
  then have "list_all alarm_inv (alarms m)" and free: "\<not> alarms_mutex m"
    and init: "alarms m \<noteq> [] \<longrightarrow> initialized m"
    by (auto simp: manager_inv_def core_inv_def)
  then have 1: "\<forall>a \<in> set (alarms m). snooze_count a \<le> max_snooze_count a"
    by (simp add: list_all_iff alarm_inv_def)
  have 2: "SnoozeAlarm now alarm_id m = None"
    if "find_if alarm_id (alarms m) = Some it" and "status (alarms m ! it) = kAlarmTriggered"
      and "snooze_count (alarms m ! it) = max_snooze_count (alarms m ! it)"
    for now alarm_id it
  proof -
    from that(1) have "alarms m \<noteq> []"
      by auto
    with init have "initialized m"
      by simp
    then show ?thesis
      using free that by (intro SnoozeAlarm_at_ceiling [of m alarm_id it]) simp_all
  qed
  from 1 2 show ?thesis
    by blast
qed

theorem snooze_count_within_ceiling_witness:
  "\<exists>m. run three_snoozes (AlarmManager_new Settings_empty) = Some m
       \<and> alarms m = [exhausted_alarm]
       \<and> snooze_count exhausted_alarm \<le> max_snooze_count exhausted_alarm
       \<and> find_if 1 (alarms m) = Some 0
       \<and> SnoozeAlarm 1900 1 m = None"
proof -
  from run_three_snoozes obtain m where
    m: "run three_snoozes (AlarmManager_new Settings_empty) = Some m"
    and a: "alarms m = [exhausted_alarm]"
    by auto
  have f: "find_if 1 (alarms m) = Some 0"
    "status (alarms m ! 0) = kAlarmTriggered"
    "snooze_count (alarms m ! 0) = max_snooze_count (alarms m ! 0)"
    by (simp_all add: a exhausted_alarm_def example_alarm_def)
  from snooze_count_within_ceiling [OF m] a f
  have "snooze_count exhausted_alarm \<le> max_snooze_count exhausted_alarm"
    and "SnoozeAlarm 1900 1 m = None"
    by auto
  with m a f show ?thesis
    by blast
qed

section \<open>The end of a snooze (C9)\<close>

text \<open>
  C9. When \<^verbatim>\<open>CheckAlarms\<close> comes to a Snoozed alarm whose \<open>next_snooze_time\<close> is not
  after the seconds read on entry, the alarm it leaves differs from the one it found in
  two fields only: the status is Triggered and \<open>next_snooze_time\<close> is 0. In particular
  \<open>snooze_count\<close> and \<open>last_triggered_time\<close> are as before, so the count keeps what
  the earlier snoozes added. With a callback registered \<^verbatim>\<open>OnAlarmTriggered\<close> is invoked
  with the new alarm; when the ids are distinct it is the only invocation this call
  makes for the alarm: none of the later checks of the loop body runs for it.
\<close>

theorem snooze_expiry_frame:
  assumes "initialized m" and "\<not> alarms_mutex m" and "i < length (alarms m)"
    and "status (alarms m ! i) = kAlarmSnoozed"
    and "next_snooze_time (alarms m ! i) \<le> current_time_seconds clk"
  shows "\<exists>m'. CheckAlarms clk m = Some ((), m')
           \<and> alarms m' ! i = (alarms m ! i)\<lparr>status := kAlarmTriggered, next_snooze_time := 0\<rparr>
           \<and> snooze_count (alarms m' ! i) = snooze_count (alarms m ! i)
           \<and> last_triggered_time (alarms m' ! i) = last_triggered_time (alarms m ! i)
           \<and> (on_alarm_triggered m \<longrightarrow>
                (\<exists>before after.
                   calls m' = calls m @ before @ [OnAlarmTriggered (alarms m' ! i)] @ after))
           \<and> (distinct (map id_field (alarms m)) \<longrightarrow>
                calls_for (id_field (alarms m ! i)) (calls m')
                  = calls_for (id_field (alarms m ! i)) (calls m)
                    @ (if on_alarm_triggered m then [OnAlarmTriggered (alarms m' ! i)] else []))"
proof -
  let ?body = "CheckAlarms_body clk (on_alarm_triggered m)"
  let ?m' = "for_each ?body m"
  let ?a' = "(alarms m ! i)\<lparr>status := kAlarmTriggered, next_snooze_time := 0\<rparr>"
  let ?segs = "map (\<lambda>(k, a). snd (?body k a)) (enumerate 0 (alarms m))"
  have run: "CheckAlarms clk m = Some ((), ?m')"
    using assms(1,2) by (rule CheckAlarms_free)
  have body: "?body i (alarms m ! i)
      = (?a', if on_alarm_triggered m then [OnAlarmTriggered ?a'] else [])"
    using assms(4,5) by (rule CheckAlarms_body_snoozed)
  have nth: "alarms ?m' ! i = ?a'"
    using assms(3) body by (simp add: for_each_nth)
  have seg: "?segs ! i = (if on_alarm_triggered m then [OnAlarmTriggered ?a'] else [])"
    using assms(3) body by (simp add: nth_enumerate_eq)
  have split: "calls ?m' = calls m @ concat (take i ?segs) @ ?segs ! i @ concat (drop (Suc i) ?segs)"
    using concat_nth_split [of i ?segs] assms(3) by (simp add: for_each_calls)
  have emitted: "on_alarm_triggered m \<longrightarrow>
      (\<exists>before after. calls ?m' = calls m @ before @ [OnAlarmTriggered (alarms ?m' ! i)] @ after)"
  proof
    assume "on_alarm_triggered m"
    then have "?segs ! i = [OnAlarmTriggered (alarms ?m' ! i)]"
      unfolding seg nth by (simp only: if_True)
    with split have "calls ?m' = calls m @ concat (take i ?segs)
        @ [OnAlarmTriggered (alarms ?m' ! i)] @ concat (drop (Suc i) ?segs)"
      by (simp only:)
    then show "\<exists>before after.
        calls ?m' = calls m @ before @ [OnAlarmTriggered (alarms ?m' ! i)] @ after"
      by blast
  qed
  have own: "distinct (map id_field (alarms m)) \<longrightarrow>
      calls_for (id_field (alarms m ! i)) (calls ?m')
        = calls_for (id_field (alarms m ! i)) (calls m)
          @ (if on_alarm_triggered m then [OnAlarmTriggered (alarms ?m' ! i)] else [])"
  proof
    assume d: "distinct (map id_field (alarms m))"
    have "calls_for (id_field (alarms m ! i)) (calls ?m')
        = calls_for (id_field (alarms m ! i)) (calls m) @ snd (?body i (alarms m ! i))"
      using CheckAlarms_calls_for [OF assms(1,2) d assms(3), of clk] by (simp add: run)
    moreover have "snd (?body i (alarms m ! i))
        = (if on_alarm_triggered m then [OnAlarmTriggered (alarms ?m' ! i)] else [])"
      unfolding nth body by (simp only: snd_conv)
    ultimately show "calls_for (id_field (alarms m ! i)) (calls ?m')
        = calls_for (id_field (alarms m ! i)) (calls m)
          @ (if on_alarm_triggered m then [OnAlarmTriggered (alarms ?m' ! i)] else [])"
      by (simp only:)
  qed
  from run nth emitted own show ?thesis
    by (intro exI [of _ ?m']) simp
qed

theorem snooze_expiry_frame_witness:
  "initialized (example_manager [snoozed_alarm]) \<and> \<not> alarms_mutex (example_manager [snoozed_alarm])
   \<and> status (alarms (example_manager [snoozed_alarm]) ! 0) = kAlarmSnoozed
   \<and> next_snooze_time (alarms (example_manager [snoozed_alarm]) ! 0)
       \<le> current_time_seconds (clock_at 1300 455 1)
   \<and> (\<exists>m'. CheckAlarms (clock_at 1300 455 1) (example_manager [snoozed_alarm]) = Some ((), m')
          \<and> alarms m' ! 0 = snoozed_alarm\<lparr>status := kAlarmTriggered, next_snooze_time := 0\<rparr>
          \<and> snooze_count (alarms m' ! 0) = 1
          \<and> calls_for 1 (calls m')
              = [OnAlarmTriggered (snoozed_alarm\<lparr>status := kAlarmTriggered, next_snooze_time := 0\<rparr>)])"
proof -
  have h: "initialized (example_manager [snoozed_alarm])"
    "\<not> alarms_mutex (example_manager [snoozed_alarm])"
    "0 < length (alarms (example_manager [snoozed_alarm]))"
    "status (alarms (example_manager [snoozed_alarm]) ! 0) = kAlarmSnoozed"
    "next_snooze_time (alarms (example_manager [snoozed_alarm]) ! 0)
       \<le> current_time_seconds (clock_at 1300 455 1)"
    by (simp_all add: snoozed_alarm_def)
  have i: "id_field snoozed_alarm = 1" "snooze_count snoozed_alarm = 1"
    by (simp_all add: snoozed_alarm_def example_alarm_def)
  from snooze_expiry_frame [OF h]
  obtain m' where "CheckAlarms (clock_at 1300 455 1) (example_manager [snoozed_alarm]) = Some ((), m')"
    "alarms m' ! 0 = snoozed_alarm\<lparr>status := kAlarmTriggered, next_snooze_time := 0\<rparr>"
    "snooze_count (alarms m' ! 0) = 1"
    "calls_for 1 (calls m')
       = [OnAlarmTriggered (snoozed_alarm\<lparr>status := kAlarmTriggered, next_snooze_time := 0\<rparr>)]"
    by (auto simp: i calls_for_def)
  with h show ?thesis
    by blast
qed

section \<open>Custom alarms created by \<^verbatim>\<open>AddAlarm\<close> (C10)\<close>

text \<open>
  C10, as the code has it. On a manager reached from the first start on an empty store,
  an alarm that \<^verbatim>\<open>AddAlarm\<close> creates with the repeat mode Custom has the mask 0. Through
  every sequence of later calls and restarts, reloads of the list from the store
  included, in which no \<^verbatim>\<open>ModifyAlarm\<close> with the alarm's id and a time in range passes
  another repeat mode than Custom, whatever the clocks read in the calls of
  \<^verbatim>\<open>CheckAlarms\<close>: every alarm of the list that has the id is Custom with the mask 0, no
  weekday is active for it, and its status is never Triggered (nor Snoozed). As long as
  the list is not dropped (by \<^verbatim>\<open>Cleanup\<close> or a restart) the alarm is in the list, at the
  position where \<^verbatim>\<open>AddAlarm\<close> put it.
\<close>

theorem custom_alarm_never_triggers:
  assumes "run cs0 (AlarmManager_new Settings_empty) = Some m"
    and "initialized m" and "0 \<le> h" and "h \<le> 23" and "0 \<le> mi" and "mi \<le> 59"
    and "AddAlarm h mi kAlarmCustom lbl music m = Some (new_id, m1)"
    and "run cs m1 = Some m2" and "\<forall>c \<in> set cs. \<not> gives_other_mode new_id c"
  shows "id_field (last (alarms m1)) = new_id \<and> weekdays_mask (last (alarms m1)) = 0
       \<and> (\<forall>a \<in> set (alarms m2). id_field a = new_id \<longrightarrow>
             repeat_mode a = kAlarmCustom \<and> weekdays_mask a = 0
             \<and> (\<forall>weekday. \<not> IsWeekdayActive a weekday)
             \<and> status a \<noteq> kAlarmTriggered \<and> status a \<noteq> kAlarmSnoozed)
       \<and> ((\<forall>c \<in> set cs. \<not> drops_alarms c) \<longrightarrow>
             length (alarms m) < length (alarms m2)
             \<and> id_field (alarms m2 ! length (alarms m)) = new_id)"
proof -
  from assms(1) have "fresh_inv m"
    by (rule reachable_fresh)
  from custom_inv_created [OF this assms(2-7)]
  have inv1: "custom_inv new_id m1" and len: "length (alarms m1) = Suc (length (alarms m))"
    and last: "id_field (last (alarms m1)) = new_id" "never_due (last (alarms m1))"
    and m1: "initialized m1" "settings m1"
    by blast+
  from custom_inv_run [OF inv1 assms(8,9)] have "custom_inv new_id m2" .
  then have "never_due a" if "a \<in> set (alarms m2)" "id_field a = new_id" for a
    using that by (auto simp: custom_inv_def list_all_iff tracked_def)
  then have safe: "\<forall>a \<in> set (alarms m2). id_field a = new_id \<longrightarrow>
             repeat_mode a = kAlarmCustom \<and> weekdays_mask a = 0
             \<and> (\<forall>weekday. \<not> IsWeekdayActive a weekday)
             \<and> status a \<noteq> kAlarmTriggered \<and> status a \<noteq> kAlarmSnoozed"
    using never_due_inactive never_due_not_ringing by (auto simp: never_due_def)
  have at: "alarms m1 ! length (alarms m) = last (alarms m1)"
    using len by (cases "alarms m1" rule: rev_cases) (simp_all add: nth_append)
  have stays: "length (alarms m) < length (alarms m2)
             \<and> id_field (alarms m2 ! length (alarms m)) = new_id"
    if "\<forall>c \<in> set cs. \<not> drops_alarms c"
    using stays_run [OF assms(8) that m1, of "length (alarms m)"] len last(1) at by simp
  from last safe stays show ?thesis
    by (simp add: never_due_def)
qed

theorem custom_alarm_never_triggers_witness:
  "\<exists>m m1 m2. run first_start (AlarmManager_new Settings_empty) = Some m \<and> initialized m
      \<and> AddAlarm 7 30 kAlarmCustom ''gym'' [] m = Some (2, m1)
      \<and> run custom_calls m1 = Some m2
      \<and> (\<forall>c \<in> set custom_calls. \<not> gives_other_mode 2 c)
      \<and> map id_field (alarms m2) = [1, 2]
      \<and> repeat_mode (alarms m2 ! 1) = kAlarmCustom
      \<and> weekdays_mask (alarms m2 ! 1) = 0
      \<and> status (alarms m2 ! 1) \<noteq> kAlarmTriggered"
proof -
  have "\<exists>m m1 m2. run first_start (AlarmManager_new Settings_empty) = Some m \<and> initialized m
      \<and> AddAlarm 7 30 kAlarmCustom ''gym'' [] m = Some (2, m1)
      \<and> run custom_calls m1 = Some m2
      \<and> map id_field (alarms m2) = [1, 2]"
    by (simp add: first_start_def custom_calls_def AlarmManager_new_def Settings_empty_def
        Initialize_def LoadAlarmsFromStorage_def load_loop_def GetInt_def AddAlarm_def
        lock_guard_def GetNextAlarmId_def AlarmItem_new_def SaveAlarmToStorage_def
        CheckAlarms_def for_each_def CheckAlarms_body_def ShouldTriggerToday_def
        IsWeekdayActive_def EnableAlarm_def ModifyAlarm_def assign_def clock_at_def
        Cleanup_def StopAllActiveAlarms_def StopAllActiveAlarms_body_def
        SaveAlarmsToStorage_def from_json_to_json upt_rec Let_def)
  then obtain m m1 m2 where
    start: "run first_start (AlarmManager_new Settings_empty) = Some m" "initialized m"
    and add: "AddAlarm 7 30 kAlarmCustom ''gym'' [] m = Some (2, m1)"
    and run: "run custom_calls m1 = Some m2"
    and ids: "map id_field (alarms m2) = [1, 2]"
    by (elim exE conjE)
  have calls: "\<forall>c \<in> set custom_calls. \<not> gives_other_mode 2 c"
    by (simp add: custom_calls_def)
  have t: "(0::int) \<le> 7" "(7::int) \<le> 23" "(0::int) \<le> 30" "(30::int) \<le> 59"
    by simp_all
  from ids have len: "length (alarms m2) = 2"
    by (auto dest: arg_cong [of _ _ length])
  then have mem: "alarms m2 ! 1 \<in> set (alarms m2)"
    by simp
  from ids len have id: "id_field (alarms m2 ! 1) = 2"
    using nth_map [of 1 "alarms m2" id_field] by simp
  from custom_alarm_never_triggers [OF start t add run calls] mem id
  have "repeat_mode (alarms m2 ! 1) = kAlarmCustom" "weekdays_mask (alarms m2 ! 1) = 0"
    "status (alarms m2 ! 1) \<noteq> kAlarmTriggered"
    by blast+
  with start add run calls ids show ?thesis
    by auto
qed

text \<open>
  The claim as stated lets the alarm fire only once a \<^verbatim>\<open>ModifyAlarm\<close> or a reload has
  given it a mask that is not 0. \<^verbatim>\<open>ModifyAlarm\<close> with the repeat mode Once leaves the
  mask (it is 0 still), and the next check at the alarm's minute makes it Triggered:
  for a Once alarm \<^verbatim>\<open>ShouldTriggerToday\<close> does not look at the mask.
\<close>

theorem custom_alarm_modified_to_once_triggers:
  "map_option (map weekdays_mask \<circ> alarms) (run custom_to_once (example_manager [])) = Some [0]
   \<and> map_option (map status \<circ> alarms) (run custom_to_once (example_manager []))
       = Some [kAlarmTriggered]"
  by (simp add: custom_to_once_def example_manager_def AddAlarm_def lock_guard_def
      GetNextAlarmId_def AlarmItem_new_def SaveAlarmToStorage_def CheckAlarms_def
      for_each_def CheckAlarms_body_def ShouldTriggerToday_def ModifyAlarm_def assign_def
      clock_at_def Settings_empty_def Let_def)

end
